theory Spec2Isabelle
  imports Complex_Main "HOL-Library.Sublist" "HOL-Library.AList"
    "HOL-Library.Char_ord" "HOL-Library.List_Lexorder"
begin

section \<open>Python text primitives used by \<open>File.py\<close>\<close>

text \<open>
  A Python \<open>str\<close> is modelled as a \<open>string\<close>; a character stands for a code point
  below 256.  \<open>isspace\<close> lists the code points below 256 for which Python's
  \<open>str.isspace\<close> holds; \<open>str.split()\<close> and \<open>str.strip()\<close> use the same set.
\<close>

definition isspace :: "char \<Rightarrow> bool" where
  "isspace c = (c \<in> set [CHR 0x09, CHR 0x0A, CHR 0x0B, CHR 0x0C, CHR 0x0D,
                          CHR 0x1C, CHR 0x1D, CHR 0x1E, CHR 0x1F, CHR 0x20,
                          CHR 0x85, CHR 0xA0])"

text \<open>\<open>s.split()\<close>: the maximal runs of non-whitespace characters, in order.\<close>

primrec split_from :: "string \<Rightarrow> string \<Rightarrow> string list" where
  "split_from cur [] = (if cur = [] then [] else [cur])"
| "split_from cur (c # cs) =
     (if isspace c then (if cur = [] then split_from [] cs else cur # split_from [] cs)
      else split_from (cur @ [c]) cs)"

definition str_split :: "string \<Rightarrow> string list" where
  "str_split s = split_from [] s"

text \<open>\<open>s.strip()\<close>, and \<open>s.lstrip()\<close> for comparison.\<close>

definition str_lstrip :: "string \<Rightarrow> string" where
  "str_lstrip s = dropWhile isspace s"

definition str_strip :: "string \<Rightarrow> string" where
  "str_strip s = rev (dropWhile isspace (rev (dropWhile isspace s)))"

text \<open>\<open>sep.join(parts)\<close>.\<close>

fun str_join :: "string \<Rightarrow> string list \<Rightarrow> string" where
  "str_join sep [] = []"
| "str_join sep [p] = p"
| "str_join sep (p # q # ps) = p @ sep @ str_join sep (q # ps)"

text \<open>
  \<open>s.splitlines()\<close>: the line boundaries below code point 256 are LF, CR, CR LF, VT, FF,
  FS, GS, RS and NEL; the boundaries are not kept, and no empty last line is produced.
  The flag records that the previous character was a CR, so that a following LF belongs
  to the same boundary.
\<close>

definition is_linebreak :: "char \<Rightarrow> bool" where
  "is_linebreak c = (c \<in> set [CHR 0x0A, CHR 0x0B, CHR 0x0C, CHR 0x0D,
                               CHR 0x1C, CHR 0x1D, CHR 0x1E, CHR 0x85])"

primrec splitlines_from :: "bool \<Rightarrow> string \<Rightarrow> string \<Rightarrow> string list" where
  "splitlines_from cr cur [] = (if cur = [] then [] else [cur])"
| "splitlines_from cr cur (c # cs) =
     (if cr \<and> c = CHR 0x0A then splitlines_from False cur cs
      else if is_linebreak c then cur # splitlines_from (c = CHR 0x0D) [] cs
      else splitlines_from False (cur @ [c]) cs)"

definition str_splitlines :: "string \<Rightarrow> string list" where
  "str_splitlines s = splitlines_from False [] s"

text \<open>\<open>s.startswith(p)\<close> is \<^const>\<open>prefix\<close> and \<open>p in s\<close> is \<^const>\<open>sublist\<close>.\<close>

section \<open>Dictionaries, lists and errors\<close>

text \<open>
  A \<open>dict\<close> is an association list with distinct keys in insertion order; assignment
  \<open>d[k] = v\<close> is \<^const>\<open>AList.update\<close>, which overwrites in place or appends.
\<close>

type_synonym ('k, 'v) dict = "('k \<times> 'v) list"

definition dict_update :: "('k, 'v) dict \<Rightarrow> ('k, 'v) dict \<Rightarrow> ('k, 'v) dict" where
  "dict_update d other = fold (\<lambda>(k, v) acc. AList.update k v acc) other d"

datatype error = ValueError | IndexError | KeyError string | TableError

text \<open>\<open>xs[i]\<close> for a Python list: a negative index counts from the end.\<close>

definition py_index :: "'a list \<Rightarrow> int \<Rightarrow> error + 'a" where
  "py_index xs i =
     (if 0 \<le> i \<and> i < int (length xs) then Inr (xs ! nat i)
      else if i < 0 \<and> - int (length xs) \<le> i then Inr (xs ! nat (int (length xs) + i))
      else Inl IndexError)"

section \<open>The class \<open>File\<close>\<close>

text \<open>
  A setting is a float or a string.  The numeric type \<open>'n\<close> and the conversion
  \<open>float(s)\<close> are parameters: \<open>to_float s = None\<close> stands for \<open>ValueError\<close>.
  The cells of a thermo table have type \<open>'v\<close>.
\<close>

datatype 'n setting = Float 'n | Str string

record ('v, 'n) File =
  data_dict :: "(string, 'v list) dict"
  "keywords" :: "string list"
  output_before_first_run :: string
  partial_logs :: "(string, 'v list) dict list"
  intermittent_output :: "string list list"
  simulation_settings :: "(string, 'n setting) dict"
  partial_simulation_settings :: "(string, 'n setting) dict list"
  logfile :: "string list"

definition start_thermo_strings :: "string list" where
  "start_thermo_strings = [''Memory usage per processor'', ''Per MPI rank memory allocation'']"

definition stop_thermo_strings :: "string list" where
  "stop_thermo_strings = [''Loop time'', ''ERROR'', ''Fix halt condition'']"

text \<open>
  The state of \<open>__init__\<close> before the two passes.  \<open>logfile\<close> holds the lines that
  \<open>readlines()\<close> will return; a stream that has been read returns no lines.
\<close>

definition new_File :: "string list \<Rightarrow> ('v, 'n) File" where
  "new_File contents =
     \<lparr>data_dict = [], keywords = [], output_before_first_run = [], partial_logs = [],
      intermittent_output = [], simulation_settings = [], partial_simulation_settings = [],
      logfile = contents\<rparr>"

subsection \<open>\<open>read_file_to_dict\<close>\<close>

text \<open>\<open>sum([string in line for string in self.stop_thermo_strings]) >= 1\<close>\<close>

definition has_stop :: "string \<Rightarrow> bool" where
  "has_stop line = (1 \<le> length (filter (\<lambda>s. sublist s line) stop_thermo_strings))"

text \<open>\<open>sum([line.startswith(string) for string in self.start_thermo_strings]) >= 1\<close>\<close>

definition is_start :: "string \<Rightarrow> bool" where
  "is_start line = (1 \<le> length (filter (\<lambda>s. prefix s line) start_thermo_strings))"

text \<open>
  The inner \<open>while\<close> loop.  \<open>scan_block tmpString line rest\<close> is entered with
  \<open>line = contents[i]\<close> and \<open>rest = contents[i+1:]\<close>; it returns \<open>tmpString\<close>, the line at
  which the loop ends, and the lines after it.  When the input is exhausted the loop
  breaks with \<open>line\<close> unchanged and nothing left.
\<close>

fun scan_block :: "string \<Rightarrow> string \<Rightarrow> string list \<Rightarrow> string \<times> string \<times> string list" where
  "scan_block tmpString line [] =
     (if has_stop line then (tmpString, line, [])
      else ((if CHR 0x0A \<in> set line then tmpString @ line else tmpString), line, []))"
| "scan_block tmpString line (l # ls) =
     (if has_stop line then (tmpString, line, l # ls)
      else scan_block (if CHR 0x0A \<in> set line then tmpString @ line else tmpString) l ls)"

definition flush_dict_and_set_new_keyword ::
  "('v, 'n) File \<Rightarrow> string list \<Rightarrow> ('v, 'n) File" where
  "flush_dict_and_set_new_keyword self kws =
     self\<lparr>data_dict := fold (\<lambda>entry d. AList.update entry [] d) kws [], keywords := kws\<rparr>"

text \<open>
  The \<open>for name in keywords\<close> loop.  The parsed table is a dictionary from column label
  to column; a missing key raises \<open>KeyError\<close>, first for \<open>self.data_dict[name]\<close>, then
  for \<open>partialLogContents[name]\<close>.
\<close>

fun merge_columns ::
  "(string, 'v list) dict \<Rightarrow> string list \<Rightarrow> (string, 'v list) dict \<Rightarrow> (string, 'v list) dict
    \<Rightarrow> error + ((string, 'v list) dict \<times> (string, 'v list) dict)" where
  "merge_columns tbl [] dd pd = Inr (dd, pd)"
| "merge_columns tbl (name # names) dd pd =
     (case map_of dd name of
        None \<Rightarrow> Inl (KeyError name)
      | Some old \<Rightarrow>
          (case map_of tbl name of
             None \<Rightarrow> Inl (KeyError name)
           | Some col \<Rightarrow>
               merge_columns tbl names (AList.update name (old @ col) dd)
                 (AList.update name ([] @ col) pd)))"

text \<open>
  The body of \<open>if keyword_flag:\<close> up to \<open>self.partial_logs.append\<close>.  The table parser
  \<open>pd.read_table(StringIO(tmpString), sep=r'\s+')\<close> is the parameter \<open>read_table\<close>;
  \<open>None\<close> stands for an exception of the parser.  The attribute
  \<open>self.partial_dict\<close> is read nowhere else and is kept as a local value.
\<close>

definition read_block ::
  "(string \<Rightarrow> (string, 'v list) dict option) \<Rightarrow> ('v, 'n) File \<Rightarrow> string \<Rightarrow> string list
    \<Rightarrow> error + (('v, 'n) File \<times> string \<times> string list)" where
  "read_block read_table self line rest =
     (let kws = str_split line;
          (tmpString, line', rest') = scan_block [] line rest
      in case read_table tmpString of
           None \<Rightarrow> Inl TableError
         | Some partialLogContents \<Rightarrow>
             (let self1 = (if keywords self \<noteq> kws
                           then flush_dict_and_set_new_keyword self kws else self)
              in case merge_columns partialLogContents kws (data_dict self1) [] of
                   Inl e \<Rightarrow> Inl e
                 | Inr (dd, partial_dict) \<Rightarrow>
                     Inr (self1\<lparr>data_dict := dd,
                                 partial_logs := partial_logs self1 @ [partial_dict]\<rparr>,
                          line', rest')))"

text \<open>The local variables of the outer loop.\<close>

record scan =
  keyword_flag :: bool
  before_first_run_flag :: bool
  intermittent_output_flag :: bool
  intermittent_output_tmp :: "string list"

definition check_start :: "string \<Rightarrow> scan \<Rightarrow> scan" where
  "check_start line sc =
     (if is_start line
      then sc\<lparr>keyword_flag := True, before_first_run_flag := False,
               intermittent_output_flag := False\<rparr>
      else sc)"

lemma scan_block_length: "length (snd (snd (scan_block t l r))) \<le> length r"
  by (induction r arbitrary: t l) (auto intro: le_SucI)

lemma read_block_length:
  "read_block rt self line rest = Inr (self', line', rest') \<Longrightarrow> length rest' \<le> length rest"
  using scan_block_length [of "[]" line rest]
  by (auto simp: read_block_def Let_def split: prod.splits option.splits sum.splits)

text \<open>
  The outer \<open>while i < len(contents)\<close> loop, on the lines from index \<open>i\<close> on.
\<close>

function loop ::
  "(string \<Rightarrow> (string, 'v list) dict option) \<Rightarrow> scan \<Rightarrow> ('v, 'n) File \<Rightarrow> string list
    \<Rightarrow> error + ('v, 'n) File" where
  "loop read_table sc self [] = Inr self"
| "loop read_table sc self (line # rest) =
     (let self1 = (if before_first_run_flag sc
                   then self\<lparr>output_before_first_run := output_before_first_run self @ line\<rparr>
                   else self);
          sc1 = (if intermittent_output_flag sc
                 then sc\<lparr>intermittent_output_tmp := intermittent_output_tmp sc @ [line]\<rparr>
                 else sc)
      in if keyword_flag sc1
         then (case read_block read_table self1 line rest of
                 Inl e \<Rightarrow> Inl e
               | Inr (self2, line', rest') \<Rightarrow>
                   loop read_table
                     (check_start line'
                        (sc1\<lparr>keyword_flag := False, intermittent_output_tmp := [],
                              intermittent_output_flag := True\<rparr>))
                     (self2\<lparr>intermittent_output :=
                               intermittent_output self2 @ [intermittent_output_tmp sc1]\<rparr>)
                     rest')
         else loop read_table (check_start line sc1) self1 rest)"
  by pat_completeness auto
termination
  by (relation "measure (\<lambda>(rt, sc, self, lines). length lines)")
     (auto dest: read_block_length)

definition read_file_to_dict ::
  "(string \<Rightarrow> (string, 'v list) dict option) \<Rightarrow> ('v, 'n) File \<Rightarrow> error + ('v, 'n) File" where
  "read_file_to_dict read_table self =
     (let contents = logfile self
      in case loop read_table
                \<lparr>keyword_flag = False, before_first_run_flag = True,
                 intermittent_output_flag = False, intermittent_output_tmp = []\<rparr>
                (self\<lparr>logfile := []\<rparr>) contents of
           Inl e \<Rightarrow> Inl e
         | Inr self' \<Rightarrow> Inr (self'\<lparr>intermittent_output := drop 1 (intermittent_output self')\<rparr>))"

subsection \<open>\<open>parse_simulation_settings\<close>\<close>

definition sim_settings_kws :: "string list" where
  "sim_settings_kws =
     [''units'', ''timestep'', ''boundary'', ''atom_style'', ''pair_style'', ''bond_style'',
      ''angle_style'', ''dihedral_style'', ''improper_style'']"

text \<open>
  The value stored for a matching keyword: the tokens after the first one, of the line
  cut at the first \<open>#\<close>.
\<close>

definition setting_value :: "(string \<Rightarrow> 'n option) \<Rightarrow> string \<Rightarrow> 'n setting" where
  "setting_value to_float line =
     (let parts = map str_strip (tl (str_split line))
      in if length parts = 1
         then (case to_float (parts ! 0) of Some x \<Rightarrow> Float x | None \<Rightarrow> Str (parts ! 0))
         else Str (str_join '' '' parts))"

text \<open>
  The \<open>for kw in sim_settings_kws\<close> loop of the helper \<open>parse_line\<close>.  The loop
  assigns to \<open>line\<close>, so the cut line is what the later keywords are tested against.
\<close>

fun parse_kws ::
  "(string \<Rightarrow> 'n option) \<Rightarrow> string list \<Rightarrow> string \<Rightarrow> (string, 'n setting) dict
    \<Rightarrow> (string, 'n setting) dict" where
  "parse_kws to_float [] line settings = settings"
| "parse_kws to_float (kw # kws) line settings =
     (if prefix kw (str_strip line)
      then (let line' = takeWhile (\<lambda>c. c \<noteq> CHR ''#'') line
            in parse_kws to_float kws line'
                 (AList.update kw (setting_value to_float line') settings))
      else parse_kws to_float kws line settings)"

definition parse_line :: "(string \<Rightarrow> 'n option) \<Rightarrow> string \<Rightarrow> (string, 'n setting) dict" where
  "parse_line to_float line = parse_kws to_float sim_settings_kws line []"

text \<open>\<open>for line in lines: d.update(parse_line(line))\<close>\<close>

definition update_from_lines ::
  "(string \<Rightarrow> 'n option) \<Rightarrow> string list \<Rightarrow> (string, 'n setting) dict
    \<Rightarrow> (string, 'n setting) dict" where
  "update_from_lines to_float lines d =
     fold (\<lambda>line acc. dict_update acc (parse_line to_float line)) lines d"

text \<open>The body of \<open>for part in self.intermittent_output\<close>.\<close>

definition settings_part ::
  "(string \<Rightarrow> 'n option) \<Rightarrow> string list \<Rightarrow> ('v, 'n) File \<Rightarrow> ('v, 'n) File" where
  "settings_part to_float part self =
     (let tmp_settings = update_from_lines to_float part (simulation_settings self)
      in self\<lparr>partial_simulation_settings := partial_simulation_settings self @ [tmp_settings],
               simulation_settings := dict_update (simulation_settings self) tmp_settings\<rparr>)"

definition parse_simulation_settings ::
  "(string \<Rightarrow> (string, 'v list) dict option) \<Rightarrow> (string \<Rightarrow> 'n option) \<Rightarrow> ('v, 'n) File
    \<Rightarrow> error + ('v, 'n) File" where
  "parse_simulation_settings read_table to_float self =
     (case (if output_before_first_run self = []
            then (case read_file_to_dict read_table self of
                    Inl e \<Rightarrow> Inl e
                  | Inr self' \<Rightarrow>
                      if output_before_first_run self' = [] then Inl ValueError else Inr self')
            else Inr self) of
        Inl e \<Rightarrow> Inl e
      | Inr self1 \<Rightarrow>
          (let settings = update_from_lines to_float
                            (str_splitlines (output_before_first_run self1))
                            (simulation_settings self1);
               self2 = self1\<lparr>simulation_settings := settings,
                              partial_simulation_settings :=
                                partial_simulation_settings self1 @ [settings]\<rparr>
           in Inr (fold (settings_part to_float) (intermittent_output self2) self2)))"

subsection \<open>\<open>__init__\<close> and the accessors\<close>

text \<open>
  \<open>File(ifile)\<close>, given the lines that \<open>readlines()\<close> returns for \<open>ifile\<close>.  An
  exception in either pass leaves no object.
\<close>

definition init ::
  "(string \<Rightarrow> (string, 'v list) dict option) \<Rightarrow> (string \<Rightarrow> 'n option) \<Rightarrow> string list
    \<Rightarrow> error + ('v, 'n) File" where
  "init read_table to_float contents =
     (case read_file_to_dict read_table (new_File contents) of
        Inl e \<Rightarrow> Inl e
      | Inr self \<Rightarrow> parse_simulation_settings read_table to_float self)"

text \<open>\<open>get\<close> returns the column, \<open>None\<close>, or raises.\<close>

definition get :: "('v, 'n) File \<Rightarrow> string \<Rightarrow> int \<Rightarrow> error + 'v list option" where
  "get self entry_name run_num =
     (if run_num = - 1
      then (case map_of (data_dict self) entry_name of
              Some col \<Rightarrow> Inr (Some col)
            | None \<Rightarrow> Inr None)
      else if int (length (partial_logs self)) > run_num
           then (case py_index (partial_logs self) run_num of
                   Inl e \<Rightarrow> Inl e
                 | Inr partial_log \<Rightarrow>
                     (case map_of partial_log entry_name of
                        Some col \<Rightarrow> Inr (Some col)
                      | None \<Rightarrow> Inr None))
           else Inr None)"

definition get_keywords :: "('v, 'n) File \<Rightarrow> int \<Rightarrow> error + string list option" where
  "get_keywords self run_num =
     (if run_num = - 1 then Inr (Some (sort (keywords self)))
      else if int (length (partial_logs self)) > run_num
           then (case py_index (partial_logs self) run_num of
                   Inl e \<Rightarrow> Inl e
                 | Inr partial_log \<Rightarrow> Inr (Some (sort (map fst partial_log))))
           else Inr None)"

definition get_num_partial_logs :: "('v, 'n) File \<Rightarrow> nat" where
  "get_num_partial_logs self = length (partial_logs self)"

definition get_simulation_settings ::
  "('v, 'n) File \<Rightarrow> int \<Rightarrow> error + (string, 'n setting) dict" where
  "get_simulation_settings self run_num = py_index (partial_simulation_settings self) run_num"

section \<open>Sample collaborators\<close>

text \<open>
  Modelled from the spec: the table parser (\<open>pandas.read_table\<close>) and \<open>float\<close> are
  library code outside the repository, and every general theorem below holds for any
  choice of them.  To run the model on concrete logs, \<open>sample_read_table\<close> reads
  whitespace-delimited text whose first line is the header, keeps each cell as its
  token and refuses empty text and rows whose length differs from the header's;
  \<open>sample_float\<close> accepts unsigned decimal literals \<open>ddd\<close> and \<open>ddd.ddd\<close> only.
\<close>

definition sample_read_table :: "string \<Rightarrow> (string, string list) dict option" where
  "sample_read_table text =
     (case str_splitlines text of
        [] \<Rightarrow> None
      | h # rows \<Rightarrow>
          (let names = str_split h; cells = map str_split rows
           in if list_all (\<lambda>r. length r = length names) cells
              then Some (map (\<lambda>j. (names ! j, map (\<lambda>r. r ! j) cells)) [0..<length names])
              else None))"

definition digit_of :: "char \<Rightarrow> nat option" where
  "digit_of c =
     (if CHR ''0'' \<le> c \<and> c \<le> CHR ''9'' then Some (of_char c - 48) else None)"

primrec digits_from :: "nat \<Rightarrow> string \<Rightarrow> nat option" where
  "digits_from acc [] = Some acc"
| "digits_from acc (c # cs) =
     (case digit_of c of None \<Rightarrow> None | Some d \<Rightarrow> digits_from (10 * acc + d) cs)"

definition sample_float :: "string \<Rightarrow> rat option" where
  "sample_float s =
     (let ip = takeWhile (\<lambda>c. c \<noteq> CHR ''.'') s;
          fp = drop 1 (dropWhile (\<lambda>c. c \<noteq> CHR ''.'') s)
      in if ip = [] \<or> (CHR ''.'' \<in> set s \<and> fp = []) then None
         else (case (digits_from 0 ip, digits_from 0 fp) of
                 (Some a, Some b) \<Rightarrow> Some (of_nat a + of_nat b / 10 ^ length fp)
               | _ \<Rightarrow> None))"

section \<open>Logs as narrative and tabular blocks\<close>

text \<open>
  A tabular block as it stands in a log: the line that starts with a start marker, the
  header line, the data lines, the line that holds a stop marker, and the narrative
  lines after it up to the next block.
\<close>

record block =
  marker :: string
  header :: string
  rows :: "string list"
  stop :: string
  gap :: "string list"

definition block_lines :: "block \<Rightarrow> string list" where
  "block_lines b = marker b # header b # rows b @ stop b # gap b"

text \<open>A last block cut off by the end of the input has no stop line and no narrative.\<close>

definition open_block_lines :: "block \<Rightarrow> string list" where
  "open_block_lines b = marker b # header b # rows b"

text \<open>
  The log made of the narrative \<open>pre\<close> and the blocks; \<open>open_end\<close> says that the
  last block is cut off by the end of the input.
\<close>

definition render :: "string list \<Rightarrow> block list \<Rightarrow> bool \<Rightarrow> string list" where
  "render pre blocks open_end =
     pre @ concat (map block_lines (butlast blocks))
         @ (if open_end then open_block_lines (last blocks) else block_lines (last blocks))"

text \<open>
  The text of a block handed to the table parser (header and data lines that hold a line
  terminator), its ColumnSet, and what makes the lines a block: no stop marker in the
  header and data lines; for a closed block a stop line that does not itself start a
  block, and no start marker in the narrative after it.
\<close>

definition block_text :: "block \<Rightarrow> string" where
  "block_text b = concat (filter (\<lambda>l. CHR 0x0A \<in> set l) (header b # rows b))"

definition column_set :: "block \<Rightarrow> string list" where
  "column_set b = str_split (header b)"

definition table_body :: "block \<Rightarrow> bool" where
  "table_body b =
     (is_start (marker b) \<and> \<not> has_stop (header b) \<and> list_all (\<lambda>r. \<not> has_stop r) (rows b))"

definition closed_block :: "block \<Rightarrow> bool" where
  "closed_block b =
     (table_body b \<and> has_stop (stop b) \<and> \<not> is_start (stop b)
      \<and> list_all (\<lambda>g. \<not> is_start g) (gap b))"

text \<open>
  The column of a block under the table parser, and its rows (none for a column the
  block does not have).  A block parses when its column names are distinct and the
  parser returns a table with a column for each of them.  A well-formed log has at
  least one block, no start marker in the narrative before the first block, blocks that
  parse, and only its last block possibly cut off.
\<close>

definition block_column ::
  "(string \<Rightarrow> (string, 'v list) dict option) \<Rightarrow> block \<Rightarrow> string \<Rightarrow> 'v list option" where
  "block_column read_table b name =
     (case read_table (block_text b) of
        None \<Rightarrow> None
      | Some tbl \<Rightarrow> if name \<in> set (column_set b) then map_of tbl name else None)"

definition block_rows ::
  "(string \<Rightarrow> (string, 'v list) dict option) \<Rightarrow> block \<Rightarrow> string \<Rightarrow> 'v list" where
  "block_rows read_table b name =
     (case block_column read_table b name of None \<Rightarrow> [] | Some col \<Rightarrow> col)"

definition block_parses :: "(string \<Rightarrow> (string, 'v list) dict option) \<Rightarrow> block \<Rightarrow> bool" where
  "block_parses read_table b =
     (distinct (column_set b)
      \<and> list_all (\<lambda>name. block_column read_table b name \<noteq> None) (column_set b)
      \<and> read_table (block_text b) \<noteq> None)"

definition wf_log ::
  "(string \<Rightarrow> (string, 'v list) dict option) \<Rightarrow> string list \<Rightarrow> block list \<Rightarrow> bool \<Rightarrow> bool" where
  "wf_log read_table pre blocks open_end =
     (blocks \<noteq> []
      \<and> list_all (\<lambda>l. \<not> is_start l) pre
      \<and> list_all (block_parses read_table) blocks
      \<and> list_all closed_block (butlast blocks)
      \<and> (if open_end then table_body (last blocks) else closed_block (last blocks)))"

text \<open>
  The final epoch of a list of blocks is its longest suffix of blocks that have the
  ColumnSet of the last block; the aggregate of a column is the rows of that column in
  the blocks of the final epoch, for the columns of the last block.
\<close>

definition final_epoch :: "block list \<Rightarrow> block list" where
  "final_epoch bs = rev (takeWhile (\<lambda>b. column_set b = column_set (last bs)) (rev bs))"

definition aggregate ::
  "(string \<Rightarrow> (string, 'v list) dict option) \<Rightarrow> block list \<Rightarrow> string \<Rightarrow> 'v list option" where
  "aggregate read_table bs name =
     (if bs \<noteq> [] \<and> name \<in> set (column_set (last bs))
      then Some (concat (map (\<lambda>b. block_rows read_table b name) (final_epoch bs)))
      else None)"

text \<open>
  What the segmentation loop maintains after the blocks \<open>bs\<close>, and the loop variables
  after a closed block.
\<close>

definition seg_inv ::
  "(string \<Rightarrow> (string, 'v list) dict option) \<Rightarrow> block list \<Rightarrow> ('v, 'n) File \<Rightarrow> bool" where
  "seg_inv read_table bs st \<longleftrightarrow>
     map map_of (partial_logs st) = map (block_column read_table) bs
     \<and> keywords st = (if bs = [] then [] else column_set (last bs))
     \<and> map_of (data_dict st) = aggregate read_table bs"

definition after_block :: "block \<Rightarrow> scan" where
  "after_block b =
     \<lparr>keyword_flag = False, before_first_run_flag = False,
      intermittent_output_flag = True, intermittent_output_tmp = gap b\<rparr>"

section \<open>Auxiliary definitions for the settings pass\<close>

text \<open>
  The state after the first snapshot has been appended, and the relation between the
  accumulator \<open>simulation_settings\<close> and the last snapshot that the loop over the
  narrative chunks maintains.
\<close>

definition first_settings :: "(string \<Rightarrow> 'n option) \<Rightarrow> ('v, 'n) File \<Rightarrow> ('v, 'n) File" where
  "first_settings tf s =
     (let settings = update_from_lines tf (str_splitlines (output_before_first_run s))
                       (simulation_settings s)
      in s\<lparr>simulation_settings := settings,
            partial_simulation_settings := partial_simulation_settings s @ [settings]\<rparr>)"

definition settings_inv :: "('v, 'n) File \<Rightarrow> bool" where
  "settings_inv s \<longleftrightarrow>
     partial_simulation_settings s \<noteq> []
     \<and> distinct (map fst (simulation_settings s))
     \<and> map_of (simulation_settings s) = map_of (last (partial_simulation_settings s))"

section \<open>Example logs\<close>

text \<open>
  A log with two runs whose thermo columns differ, and the object \<open>File\<close> builds from
  it; a log with no run at all, and its object.
\<close>

definition example_log :: "string list" where
  "example_log =
     [''units lj\<newline>'', ''timestep 0.005\<newline>'', ''Per MPI rank memory allocation\<newline>'',
      ''Step Temp\<newline>'', ''0 1.0\<newline>'', ''1 1.1\<newline>'', ''Loop time of 3\<newline>'',
      ''timestep 0.01\<newline>'', ''Memory usage per processor = 1\<newline>'',
      ''Step Temp Press\<newline>'', ''0 1.0 3\<newline>'', ''Loop time\<newline>'', ''bye\<newline>'']"

definition example_file :: "(string, rat) File" where
  "example_file =
     \<lparr>data_dict = [(''Step'', [''0'']), (''Temp'', [''1.0'']), (''Press'', [''3''])],
      keywords = [''Step'', ''Temp'', ''Press''],
      output_before_first_run =
        ''units lj\<newline>timestep 0.005\<newline>Per MPI rank memory allocation\<newline>'',
      partial_logs =
        [[(''Step'', [''0'', ''1'']), (''Temp'', [''1.0'', ''1.1''])],
         [(''Step'', [''0'']), (''Temp'', [''1.0'']), (''Press'', [''3''])]],
      intermittent_output =
        [[''timestep 0.01\<newline>'', ''Memory usage per processor = 1\<newline>'']],
      simulation_settings = [(''units'', Str ''lj''), (''timestep'', Float (1 / 100))],
      partial_simulation_settings =
        [[(''units'', Str ''lj''), (''timestep'', Float (1 / 200))],
         [(''units'', Str ''lj''), (''timestep'', Float (1 / 100))]],
      logfile = []\<rparr>"

definition hello_file :: "(string, rat) File" where
  "hello_file =
     \<lparr>data_dict = [], keywords = [], output_before_first_run = ''hello\<newline>'',
      partial_logs = [], intermittent_output = [], simulation_settings = [],
      partial_simulation_settings = [[]], logfile = []\<rparr>"

text \<open>
  The example log as narrative and blocks, and the blocks of a log whose two runs have
  the same columns and whose second run is cut off by the end of the input.
\<close>

definition example_pre :: "string list" where
  "example_pre = [''units lj\<newline>'', ''timestep 0.005\<newline>'']"

definition example_blocks :: "block list" where
  "example_blocks =
     [\<lparr>marker = ''Per MPI rank memory allocation\<newline>'', header = ''Step Temp\<newline>'',
       rows = [''0 1.0\<newline>'', ''1 1.1\<newline>''], stop = ''Loop time of 3\<newline>'',
       gap = [''timestep 0.01\<newline>'']\<rparr>,
      \<lparr>marker = ''Memory usage per processor = 1\<newline>'', header = ''Step Temp Press\<newline>'',
       rows = [''0 1.0 3\<newline>''], stop = ''Loop time\<newline>'', gap = [''bye\<newline>'']\<rparr>]"

definition open_ended_blocks :: "block list" where
  "open_ended_blocks =
     [\<lparr>marker = ''Per MPI rank memory allocation\<newline>'', header = ''Step Temp\<newline>'',
       rows = [''0 1.0\<newline>'', ''1 1.1\<newline>''], stop = ''Loop time of 3\<newline>'',
       gap = [''run 10\<newline>'']\<rparr>,
      \<lparr>marker = ''Per MPI rank memory allocation\<newline>'', header = ''Step Temp\<newline>'',
       rows = [''2 1.2\<newline>''], stop = [], gap = []\<rparr>]"

text \<open>
  Two logs with a header that names the column \<open>Temp\<close> twice, and the objects
  \<open>File\<close> builds from them: in the first both runs have that header, in the second
  only the last run has it.
\<close>

definition dup_log :: "string list" where
  "dup_log =
     [''units lj\<newline>'',
      ''Per MPI rank memory allocation\<newline>'', ''Step Temp Temp\<newline>'', ''0 1.0 1.0\<newline>'',
      ''Loop time\<newline>'',
      ''Per MPI rank memory allocation\<newline>'', ''Step Temp Temp\<newline>'', ''1 2.0 2.0\<newline>'',
      ''Loop time\<newline>'']"

definition dup_file :: "(string, rat) File" where
  "dup_file =
     \<lparr>data_dict = [(''Step'', [''0'', ''1'']), (''Temp'', [''1.0'', ''1.0'', ''2.0'', ''2.0''])],
      keywords = [''Step'', ''Temp'', ''Temp''],
      output_before_first_run = ''units lj\<newline>Per MPI rank memory allocation\<newline>'',
      partial_logs =
        [[(''Step'', [''0'']), (''Temp'', [''1.0''])],
         [(''Step'', [''1'']), (''Temp'', [''2.0''])]],
      intermittent_output = [[''Per MPI rank memory allocation\<newline>'']],
      simulation_settings = [(''units'', Str ''lj'')],
      partial_simulation_settings = [[(''units'', Str ''lj'')], [(''units'', Str ''lj'')]],
      logfile = []\<rparr>"

definition mixed_log :: "string list" where
  "mixed_log =
     [''units lj\<newline>'',
      ''Per MPI rank memory allocation\<newline>'', ''Step Temp\<newline>'', ''0 1.0\<newline>'',
      ''Loop time\<newline>'',
      ''Per MPI rank memory allocation\<newline>'', ''Step Temp Temp\<newline>'', ''1 2.0 2.0\<newline>'',
      ''Loop time\<newline>'']"

definition mixed_file :: "(string, rat) File" where
  "mixed_file =
     \<lparr>data_dict = [(''Step'', [''1'']), (''Temp'', [''2.0'', ''2.0''])],
      keywords = [''Step'', ''Temp'', ''Temp''],
      output_before_first_run = ''units lj\<newline>Per MPI rank memory allocation\<newline>'',
      partial_logs =
        [[(''Step'', [''0'']), (''Temp'', [''1.0''])],
         [(''Step'', [''1'']), (''Temp'', [''2.0''])]],
      intermittent_output = [[''Per MPI rank memory allocation\<newline>'']],
      simulation_settings = [(''units'', Str ''lj'')],
      partial_simulation_settings = [[(''units'', Str ''lj'')], [(''units'', Str ''lj'')]],
      logfile = []\<rparr>"

section \<open>Basic facts\<close>

lemma has_stop_iff: "has_stop line \<longleftrightarrow> (\<exists>s\<in>set stop_thermo_strings. sublist s line)"
  unfolding has_stop_def
  by (metis One_nat_def Suc_le_eq filter_empty_conv length_greater_0_conv)

lemma is_start_iff: "is_start line \<longleftrightarrow> (\<exists>s\<in>set start_thermo_strings. prefix s line)"
  unfolding is_start_def
  by (metis One_nat_def Suc_le_eq filter_empty_conv length_greater_0_conv)

lemma init_example: "init sample_read_table sample_float example_log = Inr example_file"
  by code_simp


section \<open>The accessors\<close>

text \<open>
  C10.  In an object with \<open>R \<ge> 1\<close> runs, a run index \<open>run_num\<close> with
  \<open>-R \<le> run_num \<le> -2\<close> selects the run \<open>R + run_num\<close>, counted from the end: \<open>get\<close>
  and \<open>get_keywords\<close> return what they return for \<open>R + run_num\<close>, which is that run's
  column (or \<open>None\<close> for an unknown column) and that run's sorted column names, not
  the aggregate and not the not-found value for the run.
\<close>

theorem negative_run_index_counts_from_end:
  assumes "1 \<le> get_num_partial_logs f"
    and "- int (get_num_partial_logs f) \<le> run_num" and "run_num \<le> - 2"
  shows "get f name run_num = get f name (int (get_num_partial_logs f) + run_num)
    \<and> get f name run_num
        = Inr (map_of (partial_logs f ! nat (int (get_num_partial_logs f) + run_num)) name)
    \<and> get_keywords f run_num = get_keywords f (int (get_num_partial_logs f) + run_num)
    \<and> get_keywords f run_num
        = Inr (Some (sort (map fst
            (partial_logs f ! nat (int (get_num_partial_logs f) + run_num)))))"
  using assms
  by (auto simp: get_def get_keywords_def get_num_partial_logs_def py_index_def Let_def
      split: option.splits)

theorem negative_run_index_counts_from_end_witness:
  "1 \<le> get_num_partial_logs example_file
   \<and> get example_file ''Temp'' (- 2) = get example_file ''Temp'' 0
   \<and> get example_file ''Temp'' (- 2) = Inr (Some [''1.0'', ''1.1''])
   \<and> get_keywords example_file (- 2) = get_keywords example_file 0
   \<and> get_keywords example_file (- 2) = Inr (Some [''Step'', ''Temp''])"
proof -
  have n: "get_num_partial_logs example_file = 2"
    by (simp add: get_num_partial_logs_def example_file_def)
  have h1: "1 \<le> get_num_partial_logs example_file" by (simp add: n)
  have h2: "- int (get_num_partial_logs example_file) \<le> - 2" by (simp add: n)
  have h3: "(- 2 :: int) \<le> - 2" by simp
  have k: "get_keywords example_file 0 = Inr (Some [''Step'', ''Temp''])" by code_simp
  have g: "get example_file ''Temp'' 0 = Inr (Some [''1.0'', ''1.1''])" by code_simp
  from negative_run_index_counts_from_end [OF h1 h2 h3, of "''Temp''"] show ?thesis
    using h1 k g by (simp add: n)
qed

text \<open>
  C6.  \<open>get\<close> and \<open>get_keywords\<close> guard the run index with
  \<open>len(self.partial_logs) > run_num\<close> only, so an index below \<open>-R\<close> reaches
  \<open>self.partial_logs[run_num]\<close> and raises \<open>IndexError\<close> instead of returning \<open>None\<close>.
  The object built from the one-line log \<open>hello\<close> has no run; both accessors raise at
  run index \<open>-2\<close>.
\<close>

theorem get_raises_below_negative_range:
  "init sample_read_table sample_float [''hello\<newline>''] = Inr hello_file
   \<and> get_num_partial_logs hello_file = 0
   \<and> get hello_file ''Temp'' (- 2) = Inl IndexError
   \<and> get_keywords hello_file (- 2) = Inl IndexError"
  by code_simp

section \<open>The settings of a line\<close>

lemma update_nonempty: "AList.update k v s \<noteq> []"
  by (cases s) (auto split: if_splits)

lemma parse_kws_nonempty: "s \<noteq> [] \<Longrightarrow> parse_kws tf kws line s \<noteq> []"
  by (induction kws arbitrary: line s)
     (simp_all add: Let_def update_nonempty del: AList.update.simps)

lemma parse_kws_empty_iff:
  "parse_kws tf kws line [] \<noteq> [] \<longleftrightarrow> (\<exists>kw\<in>set kws. prefix kw (str_strip line))"
  by (induction kws)
     (auto simp: Let_def parse_kws_nonempty update_nonempty simp del: AList.update.simps)

lemma prefix_rstrip:
  assumes "kw \<noteq> []" "\<not> P (last kw)"
  shows "prefix kw (rev (dropWhile P (rev t))) \<longleftrightarrow> prefix kw t"
proof
  assume "prefix kw (rev (dropWhile P (rev t)))"
  moreover have "prefix (rev (dropWhile P (rev t))) t"
    by (metis suffix_dropWhile suffix_to_prefix rev_rev_ident)
  ultimately show "prefix kw t" by (rule prefix_order.trans)
next
  assume "prefix kw t"
  then obtain r where t: "t = kw @ r" by (auto simp: prefix_def)
  have "dropWhile P (rev kw) = rev kw"
    using assms
    by (cases "rev kw") (auto simp: last_rev hd_rev[symmetric] dest: arg_cong[where f=hd])
  then have "dropWhile P (rev r @ rev kw)
      = (if \<forall>x\<in>set (rev r). P x then rev kw else dropWhile P (rev r) @ rev kw)"
    by (simp add: dropWhile_append)
  then show "prefix kw (rev (dropWhile P (rev t)))"
    by (auto simp: t)
qed

lemma kw_strip_lstrip:
  "kw \<in> set sim_settings_kws \<Longrightarrow>
     prefix kw (str_strip line) \<longleftrightarrow> prefix kw (str_lstrip line)"
  unfolding str_strip_def str_lstrip_def
  by (rule prefix_rstrip) (auto simp: sim_settings_kws_def isspace_def)

text \<open>
  C7, as the code has it.  \<open>parse_line\<close> tests \<open>line.strip().startswith(kw)\<close> and
  nothing after the name: a line contributes a setting if and only if, after trimming
  leading whitespace, it begins with one of the recognized names.  Whitespace after the
  name is not required, so a first token \<open>unitsfoo\<close> sets \<open>units\<close>.
\<close>

theorem parse_line_contributes_iff_prefix:
  "parse_line to_float line \<noteq> []
     \<longleftrightarrow> (\<exists>kw\<in>set sim_settings_kws. prefix kw (str_lstrip line))"
  by (simp add: parse_line_def parse_kws_empty_iff kw_strip_lstrip)

theorem parse_line_contributes_iff_prefix_witness:
  "parse_line sample_float ''  timestep 0.005\<newline>'' \<noteq> []
   \<and> prefix ''timestep'' (str_lstrip ''  timestep 0.005\<newline>'')
   \<and> ''timestep'' \<in> set sim_settings_kws"
proof -
  have a: "prefix ''timestep'' (str_lstrip ''  timestep 0.005\<newline>'')" by code_simp
  have b: "''timestep'' \<in> set sim_settings_kws" by (simp add: sim_settings_kws_def)
  from a b
  have ex: "\<exists>kw\<in>set sim_settings_kws. prefix kw (str_lstrip ''  timestep 0.005\<newline>'')"
    by blast
  have "parse_line sample_float ''  timestep 0.005\<newline>'' \<noteq> []"
    by (rule iffD2 [OF parse_line_contributes_iff_prefix ex])
  with a b show ?thesis by blast
qed

text \<open>
  The claim as the spec words it fails on the line \<open>unitsfoo bar\<close>: its first token has
  \<open>units\<close> as a proper prefix, no whitespace follows the name, and the line sets
  \<open>units\<close> to \<open>bar\<close>.
\<close>

theorem parse_line_unitsfoo_counterexample:
  "parse_line sample_float ''unitsfoo bar'' = [(''units'', Str ''bar'')]"
  by code_simp

section \<open>The segmentation loop\<close>

lemma check_start_fields [simp]:
  "intermittent_output_tmp (check_start line sc) = intermittent_output_tmp sc"
  "\<not> is_start line \<Longrightarrow> check_start line sc = sc"
  "is_start line \<Longrightarrow> keyword_flag (check_start line sc)"
  "is_start line \<Longrightarrow> \<not> before_first_run_flag (check_start line sc)"
  "is_start line \<Longrightarrow> \<not> intermittent_output_flag (check_start line sc)"
  "\<not> before_first_run_flag sc \<Longrightarrow> \<not> before_first_run_flag (check_start line sc)"
  by (simp_all add: check_start_def)

lemma read_block_fields:
  assumes "read_block rt st line rest = Inr (st2, line', rest')"
  shows "output_before_first_run st2 = output_before_first_run st"
    and "intermittent_output st2 = intermittent_output st"
    and "simulation_settings st2 = simulation_settings st"
    and "partial_simulation_settings st2 = partial_simulation_settings st"
    and "logfile st2 = logfile st"
    and "length (partial_logs st2) = Suc (length (partial_logs st))"
  using assms
  by (auto simp: read_block_def Let_def flush_dict_and_set_new_keyword_def
      split: prod.splits option.splits sum.splits if_splits)

lemma loop_fields:
  "loop rt sc st lines = Inr st' \<Longrightarrow>
     simulation_settings st' = simulation_settings st
     \<and> partial_simulation_settings st' = partial_simulation_settings st
     \<and> logfile st' = logfile st
     \<and> (length (intermittent_output st) = length (partial_logs st)
          \<longrightarrow> length (intermittent_output st') = length (partial_logs st'))
     \<and> (\<not> before_first_run_flag sc
          \<longrightarrow> output_before_first_run st' = output_before_first_run st)"
proof (induction rt sc st lines rule: loop.induct)
  case (1 rt sc self)
  then show ?case by simp
next
  case (2 rt sc self line rest)
  show ?case
  proof (cases "keyword_flag sc")
    case True
    with "2.prems" obtain self2 line' rest' where
      rb: "read_block rt (if before_first_run_flag sc
                   then self\<lparr>output_before_first_run := output_before_first_run self @ line\<rparr>
                   else self) line rest = Inr (self2, line', rest')"
      by (auto simp: Let_def split: sum.splits if_splits)
    show ?thesis
      using "2.prems" True rb read_block_fields[OF rb]
        "2.IH"(1)[OF refl refl _ rb refl]
      by (auto simp: Let_def split: if_splits)
  next
    case False
    then show ?thesis
      using "2.prems" "2.IH"(2)[OF refl refl]
      by (auto simp: Let_def split: if_splits)
  qed
qed


lemma loop_plain_step:
  "\<not> keyword_flag sc \<Longrightarrow>
     loop rt sc st (line # rest) =
       loop rt
         (check_start line
            (if intermittent_output_flag sc
             then sc\<lparr>intermittent_output_tmp := intermittent_output_tmp sc @ [line]\<rparr>
             else sc))
         (if before_first_run_flag sc
          then st\<lparr>output_before_first_run := output_before_first_run st @ line\<rparr>
          else st)
         rest"
  by (cases "intermittent_output_flag sc") (simp_all add: Let_def)

lemma loop_until_start:
  assumes "loop rt sc st (pre @ m # rest) = Inr st'"
    and "before_first_run_flag sc" and "\<not> keyword_flag sc"
    and "\<forall>l\<in>set pre. \<not> is_start l" and "is_start m"
  shows "output_before_first_run st' = output_before_first_run st @ concat pre @ m"
  using assms
proof (induction pre arbitrary: sc st)
  case Nil
  define sc1 where "sc1 = (if intermittent_output_flag sc
                 then sc\<lparr>intermittent_output_tmp := intermittent_output_tmp sc @ [m]\<rparr>
                 else sc)"
  define st1 where "st1 = st\<lparr>output_before_first_run := output_before_first_run st @ m\<rparr>"
  have "loop rt sc st (m # rest) = loop rt (check_start m sc1) st1 rest"
    using Nil.prems by (simp add: loop_plain_step sc1_def st1_def del: loop.simps)
  with Nil.prems have l: "loop rt (check_start m sc1) st1 rest = Inr st'" by simp
  have "\<not> before_first_run_flag (check_start m sc1)" using Nil.prems by simp
  with loop_fields[OF l] show ?case by (simp add: st1_def)
next
  case (Cons l pre)
  define sc1 where "sc1 = (if intermittent_output_flag sc
                 then sc\<lparr>intermittent_output_tmp := intermittent_output_tmp sc @ [l]\<rparr>
                 else sc)"
  define st1 where "st1 = st\<lparr>output_before_first_run := output_before_first_run st @ l\<rparr>"
  have nl: "\<not> is_start l" using Cons.prems by simp
  have "loop rt sc st (l # pre @ m # rest) = loop rt sc1 st1 (pre @ m # rest)"
    using Cons.prems nl by (simp add: loop_plain_step sc1_def st1_def del: loop.simps)
  with Cons.prems have l: "loop rt sc1 st1 (pre @ m # rest) = Inr st'" by simp
  have "before_first_run_flag sc1" "\<not> keyword_flag sc1"
    using Cons.prems by (simp_all add: sc1_def)
  from Cons.IH[OF l this] Cons.prems show ?case by (simp add: st1_def)
qed

lemma read_file_to_dict_new:
  assumes "read_file_to_dict rt (new_File contents) = Inr s"
  shows "\<exists>st'. loop rt \<lparr>keyword_flag = False, before_first_run_flag = True,
                 intermittent_output_flag = False, intermittent_output_tmp = []\<rparr>
                (new_File contents\<lparr>logfile := []\<rparr>) contents = Inr st'
          \<and> s = st'\<lparr>intermittent_output := drop 1 (intermittent_output st')\<rparr>"
  using assms by (auto simp: read_file_to_dict_def new_File_def Let_def split: sum.splits)

lemma read_file_to_dict_fields:
  assumes "read_file_to_dict rt (new_File contents) = Inr s"
  shows "simulation_settings s = []" and "partial_simulation_settings s = []"
    and "logfile s = []"
    and "length (intermittent_output s) = length (partial_logs s) - 1"
proof -
  from read_file_to_dict_new[OF assms] obtain st' where
    l: "loop rt \<lparr>keyword_flag = False, before_first_run_flag = True,
                 intermittent_output_flag = False, intermittent_output_tmp = []\<rparr>
                (new_File contents\<lparr>logfile := []\<rparr>) contents = Inr st'"
    and s: "s = st'\<lparr>intermittent_output := drop 1 (intermittent_output st')\<rparr>" by blast
  from loop_fields[OF l] show "simulation_settings s = []" "partial_simulation_settings s = []"
    "logfile s = []" "length (intermittent_output s) = length (partial_logs s) - 1"
    by (simp_all add: s new_File_def)
qed

lemma reread_empty:
  "logfile s = [] \<Longrightarrow>
     read_file_to_dict rt s = Inr (s\<lparr>intermittent_output := drop 1 (intermittent_output s)\<rparr>)"
  by (simp add: read_file_to_dict_def)

section \<open>The settings pass\<close>

lemma settings_part_fields [simp]:
  "data_dict (settings_part tf part s) = data_dict s"
  "keywords (settings_part tf part s) = keywords s"
  "output_before_first_run (settings_part tf part s) = output_before_first_run s"
  "partial_logs (settings_part tf part s) = partial_logs s"
  "intermittent_output (settings_part tf part s) = intermittent_output s"
  "logfile (settings_part tf part s) = logfile s"
  by (simp_all add: settings_part_def Let_def)

lemma fold_settings_part_fields:
  "data_dict (fold (settings_part tf) parts s) = data_dict s
   \<and> keywords (fold (settings_part tf) parts s) = keywords s
   \<and> output_before_first_run (fold (settings_part tf) parts s) = output_before_first_run s
   \<and> partial_logs (fold (settings_part tf) parts s) = partial_logs s
   \<and> intermittent_output (fold (settings_part tf) parts s) = intermittent_output s
   \<and> logfile (fold (settings_part tf) parts s) = logfile s
   \<and> length (partial_simulation_settings (fold (settings_part tf) parts s))
       = length (partial_simulation_settings s) + length parts
   \<and> take (length (partial_simulation_settings s))
        (partial_simulation_settings (fold (settings_part tf) parts s))
       = partial_simulation_settings s"
proof (induction parts arbitrary: s)
  case Nil
  then show ?case by simp
next
  case (Cons p parts)
  have "partial_simulation_settings (settings_part tf p s)
      = partial_simulation_settings s @ [update_from_lines tf p (simulation_settings s)]"
    by (simp add: settings_part_def Let_def)
  with Cons[of "settings_part tf p s"] show ?case
    by (auto simp: take_Suc_conv_app_nth dest: arg_cong[where f="take (length (partial_simulation_settings s))"])
qed

lemma parse_simulation_settings_nonempty:
  "output_before_first_run s \<noteq> [] \<Longrightarrow>
     parse_simulation_settings rt tf s
       = Inr (fold (settings_part tf) (intermittent_output s) (first_settings tf s))"
  by (simp add: parse_simulation_settings_def first_settings_def Let_def)

lemma parse_simulation_settings_empty:
  "output_before_first_run s = [] \<Longrightarrow> logfile s = [] \<Longrightarrow>
     parse_simulation_settings rt tf s = Inl ValueError"
  by (simp add: parse_simulation_settings_def reread_empty)

lemma init_success:
  assumes "init rt tf contents = Inr f"
  obtains s where "read_file_to_dict rt (new_File contents) = Inr s"
    and "output_before_first_run s \<noteq> []"
    and "f = fold (settings_part tf) (intermittent_output s) (first_settings tf s)"
proof -
  from assms obtain s where r: "read_file_to_dict rt (new_File contents) = Inr s"
    and p: "parse_simulation_settings rt tf s = Inr f"
    by (auto simp: init_def split: sum.splits)
  have ne: "output_before_first_run s \<noteq> []"
    using p parse_simulation_settings_empty[of s rt tf] read_file_to_dict_fields(3)[OF r]
    by auto
  with p have "f = fold (settings_part tf) (intermittent_output s) (first_settings tf s)"
    by (simp add: parse_simulation_settings_nonempty)
  with r ne that show thesis by blast
qed

lemma first_settings_fields [simp]:
  "data_dict (first_settings tf s) = data_dict s"
  "keywords (first_settings tf s) = keywords s"
  "output_before_first_run (first_settings tf s) = output_before_first_run s"
  "partial_logs (first_settings tf s) = partial_logs s"
  "intermittent_output (first_settings tf s) = intermittent_output s"
  "logfile (first_settings tf s) = logfile s"
  "partial_simulation_settings (first_settings tf s) = partial_simulation_settings s
      @ [update_from_lines tf (str_splitlines (output_before_first_run s)) (simulation_settings s)]"
  by (simp_all add: first_settings_def Let_def)

lemma init_fields:
  assumes "init rt tf contents = Inr (f :: ('v, 'n) File)"
  shows "\<exists>s :: ('v, 'n) File. read_file_to_dict rt (new_File contents) = Inr s
    \<and> output_before_first_run f = output_before_first_run s
    \<and> output_before_first_run f \<noteq> []
    \<and> data_dict f = data_dict s \<and> keywords f = keywords s
    \<and> partial_logs f = partial_logs s
    \<and> intermittent_output f = intermittent_output s
    \<and> length (partial_simulation_settings f) = Suc (length (intermittent_output f))
    \<and> logfile f = []"
proof -
  from init_success[OF assms] obtain s where r: "read_file_to_dict rt (new_File contents) = Inr s"
    and ne: "output_before_first_run s \<noteq> []"
    and f: "f = fold (settings_part tf) (intermittent_output s) (first_settings tf s)" by blast
  show ?thesis
    by (rule exI[of _ s])
       (simp add: f fold_settings_part_fields r ne read_file_to_dict_fields[OF r])
qed


lemma dict_update_other_key:
  "k \<notin> fst ` set e \<Longrightarrow> map_of (dict_update d e) k = map_of d k"
  unfolding dict_update_def
  by (induction e arbitrary: d) (auto simp: update_conv')

lemma dict_update_Cons:
  "dict_update d ((k, v) # e) = dict_update (AList.update k v d) e"
  by (simp add: dict_update_def)

lemma map_of_dict_update:
  "distinct (map fst e) \<Longrightarrow> map_of (dict_update d e) = map_of d ++ map_of e"
proof (induction e arbitrary: d)
  case Nil
  then show ?case by (simp add: dict_update_def)
next
  case (Cons a e)
  obtain k v where a: "a = (k, v)" by (cases a)
  from Cons.prems have k: "map_of e k = None" and d: "distinct (map fst e)"
    by (auto simp: a map_of_eq_None_iff)
  have "map_of (dict_update (AList.update k v d) e) = map_of (AList.update k v d) ++ map_of e"
    by (rule Cons.IH[OF d])
  also have "\<dots> = map_of d ++ map_of ((k, v) # e)"
    using k by (auto simp: update_conv' map_add_def fun_eq_iff split: option.splits)
  finally show ?case by (simp only: a dict_update_Cons)
qed

lemma distinct_dict_update:
  "distinct (map fst d) \<Longrightarrow> distinct (map fst (dict_update d e))"
proof (induction e arbitrary: d)
  case Nil
  then show ?case by (simp add: dict_update_def)
next
  case (Cons a e)
  obtain k v where a: "a = (k, v)" by (cases a)
  from Cons.prems have "distinct (map fst (AList.update k v d))" by (simp add: distinct_update)
  then show ?case unfolding a dict_update_Cons by (rule Cons.IH)
qed

lemma keys_dict_update_mono: "fst ` set d \<subseteq> fst ` set (dict_update d e)"
proof (induction e arbitrary: d)
  case Nil
  then show ?case by (simp add: dict_update_def)
next
  case (Cons a e)
  obtain k v where a: "a = (k, v)" by (cases a)
  have "dom (map_of d) \<subseteq> dom (map_of (AList.update k v d))"
    by (auto simp: update_conv')
  then have "fst ` set d \<subseteq> fst ` set (AList.update k v d)"
    by (simp add: dom_map_of_conv_image_fst)
  also have "\<dots> \<subseteq> fst ` set (dict_update (AList.update k v d) e)" by (rule Cons.IH)
  finally show ?case by (simp only: a dict_update_Cons)
qed

lemma distinct_parse_kws:
  "distinct (map fst s) \<Longrightarrow> distinct (map fst (parse_kws tf kws line s))"
  by (induction kws arbitrary: line s) (simp_all add: Let_def distinct_update del: AList.update.simps)

lemma distinct_parse_line: "distinct (map fst (parse_line tf line))"
  by (simp add: parse_line_def distinct_parse_kws)

lemma update_from_lines_distinct:
  "distinct (map fst d) \<Longrightarrow> distinct (map fst (update_from_lines tf lines d))"
  unfolding update_from_lines_def
  by (induction lines arbitrary: d) (simp_all add: distinct_dict_update)

lemma update_from_lines_keys:
  "fst ` set d \<subseteq> fst ` set (update_from_lines tf lines d)"
proof (induction lines arbitrary: d)
  case Nil
  then show ?case by (simp add: update_from_lines_def)
next
  case (Cons a lines)
  have "fst ` set d \<subseteq> fst ` set (dict_update d (parse_line tf a))"
    by (rule keys_dict_update_mono)
  also have "\<dots> \<subseteq> fst ` set (update_from_lines tf lines (dict_update d (parse_line tf a)))"
    by (rule Cons.IH)
  finally show ?case by (simp add: update_from_lines_def)
qed

lemma update_from_lines_other_key:
  "\<forall>line\<in>set lines. map_of (parse_line tf line) k = None \<Longrightarrow>
     map_of (update_from_lines tf lines d) k = map_of d k"
  unfolding update_from_lines_def
  by (induction lines arbitrary: d)
     (simp_all add: dict_update_other_key map_of_eq_None_iff)

lemma dict_update_absorb:
  assumes "distinct (map fst d)"
  shows "map_of (dict_update d (update_from_lines tf lines d))
       = map_of (update_from_lines tf lines d)"
proof -
  let ?t = "update_from_lines tf lines d"
  have dt: "distinct (map fst ?t)" by (rule update_from_lines_distinct[OF assms])
  have "dom (map_of d) \<subseteq> dom (map_of ?t)"
    using update_from_lines_keys[of d tf lines] by (simp add: dom_map_of_conv_image_fst)
  then have "map_of d ++ map_of ?t = map_of ?t"
    by (auto simp: map_add_def fun_eq_iff split: option.splits)
  with map_of_dict_update[OF dt] show ?thesis by simp
qed

lemma settings_part_inv:
  assumes "settings_inv s"
  shows "settings_inv (settings_part tf p s)"
    and "partial_simulation_settings (settings_part tf p s)
          = partial_simulation_settings s @ [update_from_lines tf p (simulation_settings s)]"
  using assms
  by (simp_all add: settings_inv_def settings_part_def Let_def dict_update_absorb
      distinct_dict_update)

lemma fold_settings_part_adjacent:
  assumes "settings_inv s" and "m < length parts"
    and "\<forall>line\<in>set (parts ! m). map_of (parse_line tf line) k = None"
  shows "map_of (partial_simulation_settings (fold (settings_part tf) parts s)
                  ! (length (partial_simulation_settings s) + m)) k
       = map_of (partial_simulation_settings (fold (settings_part tf) parts s)
                  ! (length (partial_simulation_settings s) + m - 1)) k"
  using assms
proof (induction parts arbitrary: s m)
  case Nil
  then show ?case by simp
next
  case (Cons p parts)
  let ?s1 = "settings_part tf p s"
  let ?f = "fold (settings_part tf) parts ?s1"
  let ?n = "length (partial_simulation_settings s)"
  have inv1: "settings_inv ?s1" and p1: "partial_simulation_settings ?s1
      = partial_simulation_settings s @ [update_from_lines tf p (simulation_settings s)]"
    using settings_part_inv[OF Cons.prems(1)] by blast+
  have tk: "take (Suc ?n) (partial_simulation_settings ?f) = partial_simulation_settings ?s1"
    using fold_settings_part_fields[of tf parts ?s1] by (simp add: p1)
  have nth: "partial_simulation_settings ?f ! i = partial_simulation_settings ?s1 ! i"
    if "i < Suc ?n" for i
    using that tk by (metis nth_take)
  show ?case
  proof (cases m)
    case 0
    have n0: "0 < ?n" using Cons.prems(1) by (simp add: settings_inv_def)
    have a: "partial_simulation_settings ?f ! ?n = update_from_lines tf p (simulation_settings s)"
      using nth[of ?n] by (simp add: p1)
    have b: "partial_simulation_settings ?f ! (?n - 1) = last (partial_simulation_settings s)"
      using nth[of "?n - 1"] n0 Cons.prems(1)
      by (simp add: p1 nth_append last_conv_nth settings_inv_def)
    have "map_of (update_from_lines tf p (simulation_settings s)) k
        = map_of (simulation_settings s) k"
      using Cons.prems(3) 0 by (simp add: update_from_lines_other_key)
    also have "\<dots> = map_of (last (partial_simulation_settings s)) k"
      using Cons.prems(1) by (simp add: settings_inv_def)
    finally have "map_of (update_from_lines tf p (simulation_settings s)) k
        = map_of (last (partial_simulation_settings s)) k" .
    then show ?thesis using a b by (simp add: 0)
  next
    case (Suc m')
    from Cons.IH[OF inv1, of m'] Cons.prems Suc show ?thesis
      by (simp add: p1)
  qed
qed

lemma first_settings_inv:
  "partial_simulation_settings s = [] \<Longrightarrow> simulation_settings s = [] \<Longrightarrow>
     settings_inv (first_settings tf s)"
  by (simp add: settings_inv_def first_settings_def Let_def update_from_lines_distinct)

lemma init_adjacent:
  assumes "init rt tf contents = Inr (f :: ('v, 'n) File)"
    and "m < length (intermittent_output f)"
    and "\<forall>line\<in>set (intermittent_output f ! m). map_of (parse_line tf line) k = None"
  shows "map_of (partial_simulation_settings f ! Suc m) k
       = map_of (partial_simulation_settings f ! m) k"
proof -
  from init_success[OF assms(1)] obtain s :: "('v, 'n) File" where
    r: "read_file_to_dict rt (new_File contents) = Inr s"
    and f: "f = fold (settings_part tf) (intermittent_output s) (first_settings tf s)" by blast
  have e: "partial_simulation_settings s = []" "simulation_settings s = []"
    using read_file_to_dict_fields[OF r] by simp_all
  have io: "intermittent_output f = intermittent_output s"
    by (simp add: f fold_settings_part_fields)
  from assms(2,3) have m': "m < length (intermittent_output s)"
    and l': "\<forall>line\<in>set (intermittent_output s ! m). map_of (parse_line tf line) k = None"
    by (simp_all add: io)
  have inv: "settings_inv (first_settings tf s)" by (rule first_settings_inv[OF e])
  have "length (partial_simulation_settings (first_settings tf s)) = 1" by (simp add: e)
  with fold_settings_part_adjacent[OF inv m' l'] show ?thesis by (simp add: f)
qed


section \<open>Runs, narrative and snapshots\<close>




text \<open>
  C4, as the code has it.  After a successful construction the number of settings
  snapshots is one more than the number of narrative chunks, the number of narrative
  chunks is the number of runs less one (zero when there is no run), and so the number
  of snapshots equals the number of runs whenever there is at least one run.
\<close>

theorem snapshot_count:
  assumes "init rt tf contents = Inr (f :: ('v, 'n) File)"
  shows "length (partial_simulation_settings f) = 1 + length (intermittent_output f)
    \<and> length (intermittent_output f) = get_num_partial_logs f - 1
    \<and> (1 \<le> get_num_partial_logs f
        \<longrightarrow> length (partial_simulation_settings f) = get_num_partial_logs f)"
proof -
  from init_fields[OF assms] obtain s :: "('v, 'n) File"
    where r: "read_file_to_dict rt (new_File contents) = Inr s"
    and "partial_logs f = partial_logs s" "intermittent_output f = intermittent_output s"
    "length (partial_simulation_settings f) = Suc (length (intermittent_output f))"
    by blast
  with read_file_to_dict_fields(4)[OF r] show ?thesis
    by (auto simp: get_num_partial_logs_def)
qed


theorem snapshot_count_witness:
  "length (partial_simulation_settings example_file) = 1 + length (intermittent_output example_file)
   \<and> 1 \<le> get_num_partial_logs example_file
   \<and> length (partial_simulation_settings example_file) = get_num_partial_logs example_file"
proof -
  have "1 \<le> get_num_partial_logs example_file"
    by (simp add: get_num_partial_logs_def example_file_def)
  with snapshot_count [OF init_example] show ?thesis by simp
qed

text \<open>
  With no run the two counts differ: the log \<open>hello\<close> has one snapshot and no
  run.
\<close>

theorem snapshot_count_counterexample:
  "init sample_read_table sample_float [''hello\<newline>''] = Inr hello_file
   \<and> length (partial_simulation_settings hello_file) = 1
   \<and> length (intermittent_output hello_file) = 0
   \<and> get_num_partial_logs hello_file = 0"
  by code_simp

text \<open>
  C8, as the code has it.  The loop appends the current line to
  \<open>output_before_first_run\<close> before it tests the line for a start marker, so the
  captured text is the lines up to and including the first line that starts with a
  start marker.
\<close>

theorem pre_run_narrative:
  assumes "init rt tf (pre @ m # rest) = Inr (f :: ('v, 'n) File)"
    and "\<forall>l\<in>set pre. \<not> is_start l" and "is_start m"
  shows "output_before_first_run f = concat (pre @ [m])"
proof -
  from init_fields[OF assms(1)] obtain s :: "('v, 'n) File" where
    r: "read_file_to_dict rt (new_File (pre @ m # rest)) = Inr s"
    and o: "output_before_first_run f = output_before_first_run s" by blast
  from read_file_to_dict_new[OF r] obtain st' where
    l: "loop rt \<lparr>keyword_flag = False, before_first_run_flag = True,
                 intermittent_output_flag = False, intermittent_output_tmp = []\<rparr>
                (new_File (pre @ m # rest)\<lparr>logfile := []\<rparr>) (pre @ m # rest) = Inr st'"
    and s: "s = st'\<lparr>intermittent_output := drop 1 (intermittent_output st')\<rparr>" by blast
  from loop_until_start[OF l _ _ assms(2,3)] show ?thesis
    by (simp add: o s new_File_def)
qed


theorem pre_run_narrative_witness:
  "is_start ''Per MPI rank memory allocation\<newline>''
   \<and> output_before_first_run example_file
       = concat ([''units lj\<newline>'', ''timestep 0.005\<newline>'']
                 @ [''Per MPI rank memory allocation\<newline>''])"
proof -
  have e: "example_log = [''units lj\<newline>'', ''timestep 0.005\<newline>'']
      @ ''Per MPI rank memory allocation\<newline>''
      # [''Step Temp\<newline>'', ''0 1.0\<newline>'', ''1 1.1\<newline>'', ''Loop time of 3\<newline>'',
      ''timestep 0.01\<newline>'', ''Memory usage per processor = 1\<newline>'',
      ''Step Temp Press\<newline>'', ''0 1.0 3\<newline>'', ''Loop time\<newline>'', ''bye\<newline>'']"
    by (simp add: example_log_def)
  have h2: "\<forall>l\<in>set [''units lj\<newline>'', ''timestep 0.005\<newline>'']. \<not> is_start l" by code_simp
  have h3: "is_start ''Per MPI rank memory allocation\<newline>''" by code_simp
  from pre_run_narrative [OF init_example [unfolded e] h2 h3] h3 show ?thesis by blast
qed

text \<open>
  In the example log the lines strictly before the first start marker are the two
  settings lines, and the captured text also holds the marker line.
\<close>

theorem pre_run_narrative_counterexample:
  "init sample_read_table sample_float example_log = Inr example_file
   \<and> concat (takeWhile (\<lambda>l. \<not> is_start l) example_log) = ''units lj\<newline>timestep 0.005\<newline>''
   \<and> output_before_first_run example_file
       = ''units lj\<newline>timestep 0.005\<newline>Per MPI rank memory allocation\<newline>''"
  by code_simp

text \<open>
  C5.  Settings snapshots are cumulative: for snapshot indices \<open>i < j\<close>, a key that
  snapshot \<open>i\<close> maps to \<open>v\<close>, and that no line of the narrative chunks feeding
  snapshots \<open>i+1\<close> to \<open>j\<close> sets, is mapped to \<open>v\<close> by snapshot \<open>j\<close>.  The chunk
  feeding snapshot \<open>m\<close> is \<open>intermittent_output[m-1]\<close>.
\<close>

theorem settings_cumulative:
  assumes "init rt tf contents = Inr (f :: ('v, 'n) File)"
    and "i < j" and "j < length (partial_simulation_settings f)"
    and "map_of (partial_simulation_settings f ! i) k = Some v"
    and "\<forall>m. i < m \<and> m \<le> j \<longrightarrow>
           (\<forall>line\<in>set (intermittent_output f ! (m - 1)). map_of (parse_line tf line) k = None)"
  shows "map_of (partial_simulation_settings f ! j) k = Some v"
proof -
  have len: "length (partial_simulation_settings f) = Suc (length (intermittent_output f))"
    using init_fields[OF assms(1)] by blast
  have "i + d < length (partial_simulation_settings f) \<Longrightarrow>
        (\<forall>m. i < m \<and> m \<le> i + d \<longrightarrow>
           (\<forall>line\<in>set (intermittent_output f ! (m - 1)). map_of (parse_line tf line) k = None))
        \<Longrightarrow> map_of (partial_simulation_settings f ! (i + d)) k = Some v" for d
  proof (induction d)
    case 0
    then show ?case using assms(4) by simp
  next
    case (Suc d)
    have "i < Suc (i + d) \<and> Suc (i + d) \<le> i + Suc d" by simp
    with Suc.prems(2) have "\<forall>line\<in>set (intermittent_output f ! (Suc (i + d) - 1)).
        map_of (parse_line tf line) k = None" by blast
    then have "map_of (partial_simulation_settings f ! Suc (i + d)) k
        = map_of (partial_simulation_settings f ! (i + d)) k"
      using Suc.prems(1) len by (intro init_adjacent[OF assms(1)]) simp_all
    moreover have "map_of (partial_simulation_settings f ! (i + d)) k = Some v"
    proof (rule Suc.IH)
      show "i + d < length (partial_simulation_settings f)" using Suc.prems(1) by simp
      show "\<forall>m. i < m \<and> m \<le> i + d \<longrightarrow>
           (\<forall>line\<in>set (intermittent_output f ! (m - 1)). map_of (parse_line tf line) k = None)"
      proof (intro allI impI)
        fix m
        assume "i < m \<and> m \<le> i + d"
        then have "i < m \<and> m \<le> i + Suc d" by simp
        with Suc.prems(2)
        show "\<forall>line\<in>set (intermittent_output f ! (m - 1)). map_of (parse_line tf line) k = None"
          by blast
      qed
    qed
    ultimately show ?case by simp
  qed
  from this[of "j - i"] assms(2,3,5) show ?thesis by simp
qed


theorem settings_cumulative_witness:
  "map_of (partial_simulation_settings example_file ! 0) ''units'' = Some (Str ''lj'')
   \<and> map_of (partial_simulation_settings example_file ! 1) ''units'' = Some (Str ''lj'')"
proof -
  have h2: "(0::nat) < 1" by simp
  have h3: "1 < length (partial_simulation_settings example_file)"
    by (simp add: example_file_def)
  have h4: "map_of (partial_simulation_settings example_file ! 0) ''units'' = Some (Str ''lj'')"
    by (simp add: example_file_def)
  have c: "\<forall>line\<in>set (intermittent_output example_file ! 0).
      map_of (parse_line sample_float line) ''units'' = None" by code_simp
  have h5: "\<forall>m. 0 < m \<and> m \<le> 1 \<longrightarrow>
      (\<forall>line\<in>set (intermittent_output example_file ! (m - 1)).
         map_of (parse_line sample_float line) ''units'' = None)"
  proof (intro allI impI)
    fix m :: nat
    assume "0 < m \<and> m \<le> 1"
    then have "m = 1" by simp
    with c show "\<forall>line\<in>set (intermittent_output example_file ! (m - 1)).
         map_of (parse_line sample_float line) ''units'' = None" by simp
  qed
  from settings_cumulative [OF init_example h2 h3 h4 h5] h4 show ?thesis by blast
qed

text \<open>
  C9, as the code has it.  \<open>parse_simulation_settings\<close> appends to
  \<open>partial_simulation_settings\<close> and never clears it: a second invocation on a
  constructed object succeeds, keeps the snapshots of the first invocation as the first
  half of the list and appends as many snapshots again.
\<close>

theorem second_extraction_appends:
  assumes "init rt tf contents = Inr (f :: ('v, 'n) File)"
  shows "\<exists>f2. parse_simulation_settings rt tf f = Inr f2
    \<and> length (partial_simulation_settings f2) = 2 * length (partial_simulation_settings f)
    \<and> take (length (partial_simulation_settings f)) (partial_simulation_settings f2)
        = partial_simulation_settings f"
proof -
  let ?f2 = "fold (settings_part tf) (intermittent_output f) (first_settings tf f)"
  from init_fields[OF assms] have ne: "output_before_first_run f \<noteq> []"
    and len: "length (partial_simulation_settings f) = Suc (length (intermittent_output f))"
    by blast+
  have p: "parse_simulation_settings rt tf f = Inr ?f2"
    using ne by (rule parse_simulation_settings_nonempty)
  have l2: "length (partial_simulation_settings ?f2) = 2 * length (partial_simulation_settings f)"
    using fold_settings_part_fields[of tf "intermittent_output f" "first_settings tf f"] len
    by simp
  have "take (Suc (length (partial_simulation_settings f))) (partial_simulation_settings ?f2)
      = partial_simulation_settings (first_settings tf f)"
    using fold_settings_part_fields[of tf "intermittent_output f" "first_settings tf f"]
    by simp
  then have "take (length (partial_simulation_settings f))
       (take (Suc (length (partial_simulation_settings f))) (partial_simulation_settings ?f2))
      = partial_simulation_settings f" by simp
  then have "take (length (partial_simulation_settings f)) (partial_simulation_settings ?f2)
      = partial_simulation_settings f" by (simp add: min_def)
  with p l2 show ?thesis by blast
qed

theorem second_extraction_appends_witness:
  "\<exists>f2. parse_simulation_settings sample_read_table sample_float example_file = Inr f2
     \<and> length (partial_simulation_settings f2) = 4
     \<and> take 2 (partial_simulation_settings f2) = partial_simulation_settings example_file"
proof -
  have "length (partial_simulation_settings example_file) = 2" by (simp add: example_file_def)
  with second_extraction_appends [OF init_example] show ?thesis by simp
qed

text \<open>
  For the example log the first invocation leaves two snapshots and the second
  invocation four, so the two lists are not identical.
\<close>

theorem second_extraction_appends_counterexample:
  "init sample_read_table sample_float example_log = Inr example_file
   \<and> length (partial_simulation_settings example_file) = 2
   \<and> parse_simulation_settings sample_read_table sample_float example_file
       = Inr (example_file\<lparr>partial_simulation_settings :=
           [[(''units'', Str ''lj''), (''timestep'', Float (1 / 200))],
            [(''units'', Str ''lj''), (''timestep'', Float (1 / 100))],
            [(''units'', Str ''lj''), (''timestep'', Float (1 / 200))],
            [(''units'', Str ''lj''), (''timestep'', Float (1 / 100))]]\<rparr>)"
  by code_simp

section \<open>Segmentation of a log made of blocks\<close>

lemma final_epoch_snoc:
  "final_epoch (bs @ [b])
     = (if bs \<noteq> [] \<and> column_set (last bs) = column_set b then final_epoch bs @ [b] else [b])"
proof (cases "bs = []")
  case True
  then show ?thesis by (simp add: final_epoch_def)
next
  case False
  then obtain bs' l where bs: "bs = bs' @ [l]" by (metis rev_exhaust)
  show ?thesis by (simp add: final_epoch_def bs)
qed

lemma aggregate_snoc:
  "aggregate rt (bs @ [b]) name
     = (if name \<in> set (column_set b)
        then Some ((if bs \<noteq> [] \<and> column_set (last bs) = column_set b
                    then (case aggregate rt bs name of None \<Rightarrow> [] | Some a \<Rightarrow> a) else [])
                   @ block_rows rt b name)
        else None)"
  by (simp add: aggregate_def final_epoch_snoc)

lemma map_of_flush:
  "map_of (fold (\<lambda>entry d. AList.update entry [] d) kws d)
     = (\<lambda>n. if n \<in> set kws then Some [] else map_of d n)"
  by (induction kws arbitrary: d) (auto simp: update_conv' fun_eq_iff)

lemma merge_columns_result:
  assumes "distinct kws"
    and "\<forall>n\<in>set kws. map_of tbl n \<noteq> None" and "\<forall>n\<in>set kws. map_of dd n \<noteq> None"
  shows "\<exists>dd' pd'. merge_columns tbl kws dd pd = Inr (dd', pd')
    \<and> map_of dd' = (\<lambda>n. if n \<in> set kws
                        then Some (the (map_of dd n) @ the (map_of tbl n)) else map_of dd n)
    \<and> map_of pd' = (\<lambda>n. if n \<in> set kws then map_of tbl n else map_of pd n)"
  using assms
proof (induction kws arbitrary: dd pd)
  case Nil
  then show ?case by simp
next
  case (Cons k kws)
  from Cons.prems obtain old col where o: "map_of dd k = Some old" and c: "map_of tbl k = Some col"
    by auto
  let ?dd = "AList.update k (old @ col) dd" and ?pd = "AList.update k ([] @ col) pd"
  have "\<forall>n\<in>set kws. map_of ?dd n \<noteq> None" using Cons.prems by (simp add: update_conv')
  with Cons.IH[of ?dd ?pd] Cons.prems obtain dd' pd' where
    m: "merge_columns tbl kws ?dd ?pd = Inr (dd', pd')"
    and d: "map_of dd' = (\<lambda>n. if n \<in> set kws
                        then Some (the (map_of ?dd n) @ the (map_of tbl n)) else map_of ?dd n)"
    and p: "map_of pd' = (\<lambda>n. if n \<in> set kws then map_of tbl n else map_of ?pd n)"
    by auto
  have "merge_columns tbl (k # kws) dd pd = Inr (dd', pd')" using o c m by simp
  moreover have "map_of dd' = (\<lambda>n. if n \<in> set (k # kws)
                        then Some (the (map_of dd n) @ the (map_of tbl n)) else map_of dd n)"
    using Cons.prems(1) o c by (auto simp: d update_conv' fun_eq_iff)
  moreover have "map_of pd' = (\<lambda>n. if n \<in> set (k # kws) then map_of tbl n else map_of pd n)"
    using c by (auto simp: p update_conv' fun_eq_iff)
  ultimately show ?case by blast
qed

lemma scan_block_closed:
  "\<not> has_stop l \<Longrightarrow> \<forall>r\<in>set rs. \<not> has_stop r \<Longrightarrow> has_stop s \<Longrightarrow>
     scan_block t l (rs @ s # rest)
       = (t @ concat (filter (\<lambda>l. CHR 0x0A \<in> set l) (l # rs)), s, rest)"
proof (induction rs arbitrary: t l)
  case Nil
  then show ?case by (cases rest) simp_all
next
  case (Cons r rs)
  then show ?case by simp
qed

lemma scan_block_open:
  "\<not> has_stop l \<Longrightarrow> \<forall>r\<in>set rs. \<not> has_stop r \<Longrightarrow>
     scan_block t l rs
       = (t @ concat (filter (\<lambda>l. CHR 0x0A \<in> set l) (l # rs)), last (l # rs), [])"
  by (induction rs arbitrary: t l) simp_all

lemma read_block_result:
  assumes sc: "scan_block [] (header b) rest = (block_text b, l', r')"
    and inv: "seg_inv rt bs st" and bp: "block_parses rt b"
  shows "\<exists>st2. read_block rt st (header b) rest = Inr (st2, l', r')
    \<and> seg_inv rt (bs @ [b]) st2
    \<and> output_before_first_run st2 = output_before_first_run st
    \<and> intermittent_output st2 = intermittent_output st
    \<and> length (partial_logs st2) = Suc (length (partial_logs st))"
proof -
  define kws where "kws = str_split (header b)"
  have ck: "column_set b = kws" by (simp add: kws_def column_set_def)
  from bp obtain tbl where t: "rt (block_text b) = Some tbl"
    and dk: "distinct kws" and cols: "\<forall>n\<in>set kws. map_of tbl n \<noteq> None"
    by (auto simp: block_parses_def block_column_def list_all_iff ck)
  define st1 where "st1 = (if keywords st \<noteq> kws
                           then flush_dict_and_set_new_keyword st kws else st)"
  have same: "keywords st = kws \<longleftrightarrow> (bs = [] \<and> kws = []) \<or> (bs \<noteq> [] \<and> column_set (last bs) = kws)"
    using inv by (auto simp: seg_inv_def ck)
  have dd1: "map_of (data_dict st1)
      = (\<lambda>n. if n \<in> set kws
              then Some (if bs \<noteq> [] \<and> column_set (last bs) = kws
                         then (case aggregate rt bs n of None \<Rightarrow> [] | Some a \<Rightarrow> a) else [])
              else None)"
  proof (cases "keywords st = kws")
    case True
    then have "st1 = st" by (simp add: st1_def)
    moreover have "map_of (data_dict st) = aggregate rt bs" using inv by (simp add: seg_inv_def)
    ultimately show ?thesis using True same
      by (auto simp: fun_eq_iff aggregate_def ck)
  next
    case False
    then have "data_dict st1 = fold (\<lambda>entry d. AList.update entry [] d) kws []"
      by (simp add: st1_def flush_dict_and_set_new_keyword_def)
    then show ?thesis using False same by (auto simp: map_of_flush fun_eq_iff)
  qed
  have k1: "keywords st1 = kws" "partial_logs st1 = partial_logs st"
    "output_before_first_run st1 = output_before_first_run st"
    "intermittent_output st1 = intermittent_output st"
    by (simp_all add: st1_def flush_dict_and_set_new_keyword_def)
  have "\<forall>n\<in>set kws. map_of (data_dict st1) n \<noteq> None" by (simp add: dd1)
  from merge_columns_result[OF dk cols this, of "[]"] obtain dd' pd' where
    m: "merge_columns tbl kws (data_dict st1) [] = Inr (dd', pd')"
    and d: "map_of dd' = (\<lambda>n. if n \<in> set kws
                 then Some (the (map_of (data_dict st1) n) @ the (map_of tbl n))
                 else map_of (data_dict st1) n)"
    and p: "map_of pd' = (\<lambda>n. if n \<in> set kws then map_of tbl n else map_of [] n)"
    by blast
  let ?st2 = "st1\<lparr>data_dict := dd', partial_logs := partial_logs st1 @ [pd']\<rparr>"
  have rb: "read_block rt st (header b) rest = Inr (?st2, l', r')"
    using sc t m
    by (cases "keywords st = kws") (simp_all add: read_block_def Let_def st1_def kws_def)
  have pcol: "map_of pd' = block_column rt b"
    by (auto simp: p block_column_def t fun_eq_iff ck)
  have rows: "block_rows rt b n = the (map_of tbl n)" if "n \<in> set kws" for n
    using that cols by (auto simp: block_rows_def block_column_def t ck)
  have agg: "map_of dd' = aggregate rt (bs @ [b])"
    by (auto simp: d dd1 aggregate_snoc rows fun_eq_iff ck)
  have "seg_inv rt (bs @ [b]) ?st2"
    using inv by (simp add: seg_inv_def k1 pcol agg ck)
  with rb show ?thesis by (intro exI[of _ ?st2]) (simp add: k1)
qed

lemma seg_inv_cong:
  "partial_logs st' = partial_logs st \<Longrightarrow> keywords st' = keywords st \<Longrightarrow>
   data_dict st' = data_dict st \<Longrightarrow> seg_inv rt bs st' = seg_inv rt bs st"
  by (simp add: seg_inv_def)

lemma loop_gap:
  "\<not> keyword_flag sc \<Longrightarrow> \<not> before_first_run_flag sc \<Longrightarrow> intermittent_output_flag sc \<Longrightarrow>
   \<forall>g\<in>set gs. \<not> is_start g \<Longrightarrow>
     loop rt sc st (gs @ tail)
       = loop rt (sc\<lparr>intermittent_output_tmp := intermittent_output_tmp sc @ gs\<rparr>) st tail"
proof (induction gs arbitrary: sc)
  case Nil
  then show ?case by simp
next
  case (Cons g gs)
  let ?sc1 = "sc\<lparr>intermittent_output_tmp := intermittent_output_tmp sc @ [g]\<rparr>"
  have "loop rt sc st ((g # gs) @ tail) = loop rt ?sc1 st (gs @ tail)"
    using Cons.prems by (simp add: loop_plain_step del: loop.simps)
  also have "\<dots> = loop rt (?sc1\<lparr>intermittent_output_tmp := intermittent_output_tmp ?sc1 @ gs\<rparr>) st tail"
    using Cons.prems by (intro Cons.IH) simp_all
  finally show ?case by simp
qed

lemma loop_keyword_step:
  assumes "keyword_flag sc" and "\<not> before_first_run_flag sc" and "\<not> intermittent_output_flag sc"
    and "read_block rt st line rest = Inr (st2, line', rest')"
  shows "loop rt sc st (line # rest)
       = loop rt
           (check_start line'
              (sc\<lparr>keyword_flag := False, intermittent_output_tmp := [],
                   intermittent_output_flag := True\<rparr>))
           (st2\<lparr>intermittent_output := intermittent_output st2 @ [intermittent_output_tmp sc]\<rparr>)
           rest'"
  using assms by (simp add: Let_def)

lemma loop_marker_step:
  assumes "\<not> keyword_flag sc" and "is_start m"
  shows "\<exists>sc2. loop rt sc st (m # rest)
         = loop rt sc2
             (if before_first_run_flag sc
              then st\<lparr>output_before_first_run := output_before_first_run st @ m\<rparr> else st)
             rest
       \<and> keyword_flag sc2 \<and> \<not> before_first_run_flag sc2 \<and> \<not> intermittent_output_flag sc2"
  using assms by (subst loop_plain_step) (auto simp del: loop.simps)

lemma after_block_eq:
  "\<not> before_first_run_flag (sc :: scan) \<Longrightarrow>
   sc\<lparr>keyword_flag := False, intermittent_output_tmp := [], intermittent_output_flag := True\<rparr>
     \<lparr>intermittent_output_tmp := gap b\<rparr> = after_block b"
  by (cases sc) (simp add: after_block_def)

lemma loop_closed_block:
  assumes cb: "closed_block b" and bp: "block_parses rt b" and inv: "seg_inv rt bs st"
    and kf: "\<not> keyword_flag sc"
  shows "\<exists>st'. loop rt sc st (block_lines b @ tail) = loop rt (after_block b) st' tail
    \<and> seg_inv rt (bs @ [b]) st'
    \<and> length (partial_logs st') = Suc (length (partial_logs st))
    \<and> output_before_first_run st'
        = (if before_first_run_flag sc then output_before_first_run st @ marker b
           else output_before_first_run st)"
proof -
  from cb have m: "is_start (marker b)" and h: "\<not> has_stop (header b)"
    and r: "\<forall>r\<in>set (rows b). \<not> has_stop r" and s: "has_stop (stop b)"
    and ns: "\<not> is_start (stop b)" and g: "\<forall>g\<in>set (gap b). \<not> is_start g"
    by (simp_all add: closed_block_def table_body_def list_all_iff)
  define st1 where "st1 = (if before_first_run_flag sc
              then st\<lparr>output_before_first_run := output_before_first_run st @ marker b\<rparr> else st)"
  let ?rest = "rows b @ stop b # gap b @ tail"
  from loop_marker_step[OF kf m, of rt st "header b # ?rest"] obtain sc2 where
    l1: "loop rt sc st (marker b # header b # ?rest) = loop rt sc2 st1 (header b # ?rest)"
    and f2: "keyword_flag sc2" "\<not> before_first_run_flag sc2" "\<not> intermittent_output_flag sc2"
    unfolding st1_def by blast
  have "seg_inv rt bs st1 = seg_inv rt bs st"
    by (rule seg_inv_cong) (simp_all add: st1_def)
  with inv have inv1: "seg_inv rt bs st1" by simp
  have scn: "scan_block [] (header b) ?rest = (block_text b, stop b, gap b @ tail)"
    using scan_block_closed[OF h r s, of "[]" "gap b @ tail"] by (simp add: block_text_def)
  from read_block_result[OF scn inv1 bp] obtain st2 where
    rb: "read_block rt st1 (header b) ?rest = Inr (st2, stop b, gap b @ tail)"
    and inv2: "seg_inv rt (bs @ [b]) st2"
    and o2: "output_before_first_run st2 = output_before_first_run st1"
    and p2: "length (partial_logs st2) = Suc (length (partial_logs st1))" by blast
  define sc3 where "sc3 = sc2\<lparr>keyword_flag := False, intermittent_output_tmp := [],
                   intermittent_output_flag := True\<rparr>"
  define st3 where "st3 = st2\<lparr>intermittent_output :=
      intermittent_output st2 @ [intermittent_output_tmp sc2]\<rparr>"
  have l2: "loop rt sc2 st1 (header b # ?rest) = loop rt sc3 st3 (gap b @ tail)"
    using loop_keyword_step[OF f2 rb] ns by (simp add: sc3_def st3_def)
  have l3: "loop rt sc3 st3 (gap b @ tail)
      = loop rt (sc3\<lparr>intermittent_output_tmp := intermittent_output_tmp sc3 @ gap b\<rparr>) st3 tail"
    using f2 g by (intro loop_gap) (simp_all add: sc3_def)
  have e: "sc3\<lparr>intermittent_output_tmp := intermittent_output_tmp sc3 @ gap b\<rparr> = after_block b"
    using after_block_eq[OF f2(2), of b] by (simp add: sc3_def)
  have "loop rt sc st (block_lines b @ tail) = loop rt (after_block b) st3 tail"
    using l1 l2 l3 e by (simp add: block_lines_def)
  moreover have "seg_inv rt (bs @ [b]) st3 = seg_inv rt (bs @ [b]) st2"
    by (rule seg_inv_cong) (simp_all add: st3_def)
  with inv2 have "seg_inv rt (bs @ [b]) st3" by simp
  moreover have "length (partial_logs st3) = Suc (length (partial_logs st))"
    using p2 by (simp add: st3_def st1_def)
  moreover have "output_before_first_run st3
        = (if before_first_run_flag sc then output_before_first_run st @ marker b
           else output_before_first_run st)"
    using o2 by (simp add: st3_def st1_def)
  ultimately show ?thesis by blast
qed

lemma loop_open_block:
  assumes tb: "table_body b" and bp: "block_parses rt b" and inv: "seg_inv rt bs st"
    and kf: "\<not> keyword_flag sc"
  shows "\<exists>st'. loop rt sc st (open_block_lines b) = Inr st'
    \<and> seg_inv rt (bs @ [b]) st'
    \<and> length (partial_logs st') = Suc (length (partial_logs st))
    \<and> output_before_first_run st'
        = (if before_first_run_flag sc then output_before_first_run st @ marker b
           else output_before_first_run st)"
proof -
  from tb have m: "is_start (marker b)" and h: "\<not> has_stop (header b)"
    and r: "\<forall>r\<in>set (rows b). \<not> has_stop r"
    by (simp_all add: table_body_def list_all_iff)
  define st1 where "st1 = (if before_first_run_flag sc
              then st\<lparr>output_before_first_run := output_before_first_run st @ marker b\<rparr> else st)"
  from loop_marker_step[OF kf m, of rt st "header b # rows b"] obtain sc2 where
    l1: "loop rt sc st (marker b # header b # rows b) = loop rt sc2 st1 (header b # rows b)"
    and f2: "keyword_flag sc2" "\<not> before_first_run_flag sc2" "\<not> intermittent_output_flag sc2"
    unfolding st1_def by blast
  have "seg_inv rt bs st1 = seg_inv rt bs st"
    by (rule seg_inv_cong) (simp_all add: st1_def)
  with inv have inv1: "seg_inv rt bs st1" by simp
  have scn: "scan_block [] (header b) (rows b) = (block_text b, last (header b # rows b), [])"
    using scan_block_open[OF h r, of "[]"] by (simp add: block_text_def)
  from read_block_result[OF scn inv1 bp] obtain st2 where
    rb: "read_block rt st1 (header b) (rows b) = Inr (st2, last (header b # rows b), [])"
    and inv2: "seg_inv rt (bs @ [b]) st2"
    and o2: "output_before_first_run st2 = output_before_first_run st1"
    and p2: "length (partial_logs st2) = Suc (length (partial_logs st1))" by blast
  define st3 where "st3 = st2\<lparr>intermittent_output :=
      intermittent_output st2 @ [intermittent_output_tmp sc2]\<rparr>"
  have l2: "loop rt sc2 st1 (header b # rows b) = Inr st3"
    using loop_keyword_step[OF f2 rb] by (simp add: st3_def)
  have "loop rt sc st (open_block_lines b) = Inr st3"
    using l1 l2 by (simp add: open_block_lines_def)
  moreover have "seg_inv rt (bs @ [b]) st3 = seg_inv rt (bs @ [b]) st2"
    by (rule seg_inv_cong) (simp_all add: st3_def)
  with inv2 have "seg_inv rt (bs @ [b]) st3" by simp
  moreover have "length (partial_logs st3) = Suc (length (partial_logs st))"
    using p2 by (simp add: st3_def st1_def)
  moreover have "output_before_first_run st3
        = (if before_first_run_flag sc then output_before_first_run st @ marker b
           else output_before_first_run st)"
    using o2 by (simp add: st3_def st1_def)
  ultimately show ?thesis by blast
qed

lemma loop_pre:
  "\<not> keyword_flag sc \<Longrightarrow> \<forall>l\<in>set pre. \<not> is_start l \<Longrightarrow>
     \<exists>sc'. loop rt sc st (pre @ tail)
            = loop rt sc'
                (if before_first_run_flag sc
                 then st\<lparr>output_before_first_run := output_before_first_run st @ concat pre\<rparr>
                 else st) tail
          \<and> \<not> keyword_flag sc' \<and> before_first_run_flag sc' = before_first_run_flag sc"
proof (induction pre arbitrary: sc st)
  case Nil
  then show ?case by (intro exI[of _ sc]) simp
next
  case (Cons l pre)
  define sc1 where "sc1 = (if intermittent_output_flag sc
             then sc\<lparr>intermittent_output_tmp := intermittent_output_tmp sc @ [l]\<rparr>
             else sc)"
  define st1 where "st1 = (if before_first_run_flag sc
          then st\<lparr>output_before_first_run := output_before_first_run st @ l\<rparr>
          else st)"
  have s1: "loop rt sc st ((l # pre) @ tail) = loop rt sc1 st1 (pre @ tail)"
    using Cons.prems by (simp add: loop_plain_step sc1_def st1_def del: loop.simps)
  have k1: "\<not> keyword_flag sc1" "before_first_run_flag sc1 = before_first_run_flag sc"
    using Cons.prems by (simp_all add: sc1_def)
  from Cons.IH[OF k1(1), of st1] Cons.prems obtain sc' where
    "loop rt sc1 st1 (pre @ tail)
            = loop rt sc'
                (if before_first_run_flag sc1
                 then st1\<lparr>output_before_first_run := output_before_first_run st1 @ concat pre\<rparr>
                 else st1) tail"
    and "\<not> keyword_flag sc'" "before_first_run_flag sc' = before_first_run_flag sc1"
    by auto
  with s1 k1 show ?case by (intro exI[of _ sc']) (simp add: st1_def)
qed

lemma after_block_flags [simp]:
  "\<not> keyword_flag (after_block b)" "\<not> before_first_run_flag (after_block b)"
  by (simp_all add: after_block_def)

lemma loop_closed_blocks:
  assumes "\<forall>b\<in>set cs. closed_block b \<and> block_parses rt b"
    and "seg_inv rt bs st" and "\<not> keyword_flag sc"
  shows "\<exists>st' sc'. loop rt sc st (concat (map block_lines cs) @ tail) = loop rt sc' st' tail
    \<and> \<not> keyword_flag sc'
    \<and> before_first_run_flag sc' = (before_first_run_flag sc \<and> cs = [])
    \<and> seg_inv rt (bs @ cs) st'
    \<and> length (partial_logs st') = length (partial_logs st) + length cs
    \<and> output_before_first_run st'
        = (if before_first_run_flag sc \<and> cs \<noteq> []
           then output_before_first_run st @ marker (hd cs)
           else output_before_first_run st)"
  using assms
proof (induction cs arbitrary: bs st sc)
  case Nil
  then show ?case by (intro exI[of _ st] exI[of _ sc]) simp
next
  case (Cons c cs)
  from Cons.prems have cb: "closed_block c" and bp: "block_parses rt c" by simp_all
  from loop_closed_block[OF cb bp Cons.prems(2,3), of "concat (map block_lines cs) @ tail"]
  obtain st1 where
    l1: "loop rt sc st (block_lines c @ concat (map block_lines cs) @ tail)
           = loop rt (after_block c) st1 (concat (map block_lines cs) @ tail)"
    and inv1: "seg_inv rt (bs @ [c]) st1"
    and p1: "length (partial_logs st1) = Suc (length (partial_logs st))"
    and o1: "output_before_first_run st1
        = (if before_first_run_flag sc then output_before_first_run st @ marker c
           else output_before_first_run st)" by blast
  have rest: "\<forall>b\<in>set cs. closed_block b \<and> block_parses rt b" using Cons.prems(1) by simp
  from Cons.IH[OF rest inv1, of "after_block c"] obtain st' sc' where
    l2: "loop rt (after_block c) st1 (concat (map block_lines cs) @ tail) = loop rt sc' st' tail"
    and k: "\<not> keyword_flag sc'" "\<not> before_first_run_flag sc'"
    and inv2: "seg_inv rt ((bs @ [c]) @ cs) st'"
    and p2: "length (partial_logs st') = length (partial_logs st1) + length cs"
    and o2: "output_before_first_run st' = output_before_first_run st1"
    by auto
  show ?case
    using l1 l2 k inv2 p1 p2 o1 o2
    by (intro exI[of _ st'] exI[of _ sc']) simp
qed

lemma seg_inv_new: "seg_inv rt [] (new_File contents\<lparr>logfile := []\<rparr>)"
  by (simp add: seg_inv_def new_File_def aggregate_def fun_eq_iff)

lemma is_start_nonempty: "is_start m \<Longrightarrow> m \<noteq> []"
  by (auto simp: is_start_iff start_thermo_strings_def)

lemma segment_log:
  assumes "wf_log rt pre blocks open_end"
  shows "\<exists>s :: ('v, 'n) File. read_file_to_dict rt (new_File (render pre blocks open_end)) = Inr s
    \<and> seg_inv rt blocks s
    \<and> length (partial_logs s) = length blocks
    \<and> output_before_first_run s \<noteq> []"
proof -
  from assms have ne: "blocks \<noteq> []" and pre: "\<forall>l\<in>set pre. \<not> is_start l"
    and bps: "\<forall>b\<in>set blocks. block_parses rt b"
    and cl: "\<forall>b\<in>set (butlast blocks). closed_block b"
    and la: "if open_end then table_body (last blocks) else closed_block (last blocks)"
    by (simp_all add: wf_log_def list_all_iff)
  let ?cs = "butlast blocks" and ?b = "last blocks"
  let ?fin = "if open_end then open_block_lines ?b else block_lines ?b"
  let ?sc0 = "\<lparr>keyword_flag = False, before_first_run_flag = True,
                 intermittent_output_flag = False, intermittent_output_tmp = []\<rparr>"
  let ?st0 = "(new_File (render pre blocks open_end) :: ('v, 'n) File)\<lparr>logfile := []\<rparr>"
  have bl: "blocks = ?cs @ [?b]" using ne by simp
  have bpl: "block_parses rt ?b" using bps ne by simp
  have mb: "is_start (marker ?b)"
    using la by (auto simp: closed_block_def table_body_def split: if_splits)
  from loop_pre[of ?sc0 pre rt ?st0 "concat (map block_lines ?cs) @ ?fin"] pre
  obtain sc1 where
    l1: "loop rt ?sc0 ?st0 (pre @ concat (map block_lines ?cs) @ ?fin)
       = loop rt sc1 (?st0\<lparr>output_before_first_run := output_before_first_run ?st0 @ concat pre\<rparr>)
           (concat (map block_lines ?cs) @ ?fin)"
    and k1: "\<not> keyword_flag sc1" "before_first_run_flag sc1" by auto
  let ?st1 = "?st0\<lparr>output_before_first_run := output_before_first_run ?st0 @ concat pre\<rparr>"
  have "seg_inv rt [] ?st1 = seg_inv rt [] ?st0" by (rule seg_inv_cong) simp_all
  then have inv1: "seg_inv rt [] ?st1" by (simp add: seg_inv_new)
  have cps: "\<forall>b\<in>set ?cs. closed_block b \<and> block_parses rt b"
    using cl bps by (auto dest: in_set_butlastD)
  from loop_closed_blocks[OF cps inv1 k1(1), of ?fin] obtain st2 sc2 where
    l2: "loop rt sc1 ?st1 (concat (map block_lines ?cs) @ ?fin) = loop rt sc2 st2 ?fin"
    and k2: "\<not> keyword_flag sc2"
    and b2: "before_first_run_flag sc2 = (before_first_run_flag sc1 \<and> ?cs = [])"
    and inv2: "seg_inv rt ([] @ ?cs) st2"
    and p2: "length (partial_logs st2) = length (partial_logs ?st1) + length ?cs"
    and o2: "output_before_first_run st2
        = (if before_first_run_flag sc1 \<and> ?cs \<noteq> []
           then output_before_first_run ?st1 @ marker (hd ?cs)
           else output_before_first_run ?st1)" by blast
  have "\<exists>st3. loop rt sc2 st2 ?fin = Inr st3 \<and> seg_inv rt (?cs @ [?b]) st3
    \<and> length (partial_logs st3) = Suc (length (partial_logs st2))
    \<and> output_before_first_run st3
        = (if before_first_run_flag sc2 then output_before_first_run st2 @ marker ?b
           else output_before_first_run st2)"
  proof (cases open_end)
    case True
    with la have "table_body ?b" by simp
    from loop_open_block[OF this bpl _ k2, of "?cs" st2] inv2 True show ?thesis by simp
  next
    case False
    with la have "closed_block ?b" by simp
    from loop_closed_block[OF this bpl _ k2, of "?cs" st2 "[]"] inv2 False show ?thesis by simp
  qed
  then obtain st3 where l3: "loop rt sc2 st2 ?fin = Inr st3"
    and inv3: "seg_inv rt (?cs @ [?b]) st3"
    and p3: "length (partial_logs st3) = Suc (length (partial_logs st2))"
    and o3: "output_before_first_run st3
        = (if before_first_run_flag sc2 then output_before_first_run st2 @ marker ?b
           else output_before_first_run st2)" by blast
  have lp: "loop rt ?sc0 ?st0 (render pre blocks open_end) = Inr st3"
    using l1 l2 l3 by (simp add: render_def)
  let ?s = "st3\<lparr>intermittent_output := drop 1 (intermittent_output st3)\<rparr>"
  have r: "read_file_to_dict rt (new_File (render pre blocks open_end)) = Inr ?s"
    using lp by (simp add: read_file_to_dict_def new_File_def)
  have "seg_inv rt blocks ?s = seg_inv rt blocks st3" by (rule seg_inv_cong) simp_all
  with inv3 bl have i: "seg_inv rt blocks ?s" by simp
  have "length (partial_logs st3) = Suc (length ?cs)" using p3 p2 by (simp add: new_File_def)
  then have p: "length (partial_logs ?s) = length blocks" using ne by simp
  have "output_before_first_run st3 \<noteq> []"
  proof (cases "?cs = []")
    case True
    then show ?thesis using o3 b2 k1 is_start_nonempty[OF mb] by simp
  next
    case False
    then have "hd ?cs \<in> set ?cs" by simp
    with cl have "is_start (marker (hd ?cs))" by (simp add: closed_block_def table_body_def)
    then show ?thesis using o3 o2 b2 k1 False is_start_nonempty by simp
  qed
  then have o: "output_before_first_run ?s \<noteq> []" by simp
  from r i p o show ?thesis by blast
qed

lemma construct_log:
  assumes "wf_log rt pre blocks open_end"
  shows "\<exists>f :: ('v, 'n) File. init rt tf (render pre blocks open_end) = Inr f
    \<and> seg_inv rt blocks f \<and> length (partial_logs f) = length blocks"
proof -
  from segment_log[OF assms] obtain s :: "('v, 'n) File" where
    r: "read_file_to_dict rt (new_File (render pre blocks open_end)) = Inr s"
    and i: "seg_inv rt blocks s" and p: "length (partial_logs s) = length blocks"
    and o: "output_before_first_run s \<noteq> []" by blast
  let ?f = "fold (settings_part tf) (intermittent_output s) (first_settings tf s)"
  have "init rt tf (render pre blocks open_end) = Inr ?f"
    using r o by (simp add: init_def parse_simulation_settings_nonempty)
  moreover have "seg_inv rt blocks ?f = seg_inv rt blocks s"
    by (rule seg_inv_cong) (simp_all add: fold_settings_part_fields)
  moreover have "length (partial_logs ?f) = length blocks"
    using p by (simp add: fold_settings_part_fields)
  ultimately show ?thesis using i by blast
qed

lemma get_aggregate:
  "seg_inv rt blocks f \<Longrightarrow> get f name (- 1) = Inr (aggregate rt blocks name)"
  by (simp add: get_def seg_inv_def split: option.splits)

lemma get_run:
  assumes "seg_inv rt blocks f" and "k < length blocks"
  shows "get f name (int k) = Inr (block_column rt (blocks ! k) name)"
proof -
  from assms(1) have m: "map map_of (partial_logs f) = map (block_column rt) blocks"
    by (simp add: seg_inv_def)
  then have l: "length (partial_logs f) = length blocks" by (metis length_map)
  from m have "map map_of (partial_logs f) ! k = map (block_column rt) blocks ! k" by simp
  with assms(2) l have "map_of (partial_logs f ! k) = block_column rt (blocks ! k)" by simp
  with assms(2) l show ?thesis
    by (simp add: get_def py_index_def split: option.splits)
qed

lemma final_epoch_all_same:
  "\<forall>b\<in>set bs. column_set b = cs \<Longrightarrow> bs \<noteq> [] \<Longrightarrow> final_epoch bs = bs"
proof -
  assume a: "\<forall>b\<in>set bs. column_set b = cs" and ne: "bs \<noteq> []"
  then have "column_set (last bs) = cs" by simp
  with a have "takeWhile (\<lambda>b. column_set b = column_set (last bs)) (rev bs) = rev bs"
    by (simp add: takeWhile_eq_all_conv)
  then show ?thesis unfolding final_epoch_def by (simp only: rev_rev_ident)
qed

lemma block_column_rows:
  "block_parses rt b \<Longrightarrow> name \<in> set (column_set b) \<Longrightarrow>
     block_column rt b name = Some (block_rows rt b name)"
  by (auto simp: block_parses_def block_rows_def list_all_iff split: option.splits)

lemma render_example: "render example_pre example_blocks False = example_log"
  by code_simp

lemma wf_example: "wf_log sample_read_table example_pre example_blocks False"
  by code_simp

lemma wf_open_ended: "wf_log sample_read_table [''units lj\<newline>''] open_ended_blocks True"
  by code_simp

text \<open>
  When every header names each column once: a well-formed log of \<open>R \<ge> 1\<close> tabular
  blocks that all have the ColumnSet \<open>cs\<close> is constructed without error;
  \<open>get_num_partial_logs\<close> returns \<open>R\<close>; for every column of \<open>cs\<close>, run \<open>k\<close> holds
  the rows of block \<open>k\<close> and the aggregate returned by \<open>get(name, -1)\<close> has as many
  entries as the blocks have rows together.
\<close>

lemma distinct_names_same_columns:
  assumes "wf_log rt pre blocks open_end" and "\<forall>b\<in>set blocks. column_set b = cs"
  shows "\<exists>f :: ('v, 'n) File. init rt tf (render pre blocks open_end) = Inr f
    \<and> get_num_partial_logs f = length blocks
    \<and> (\<forall>name\<in>set cs. \<forall>k<length blocks.
          get f name (int k) = Inr (Some (block_rows rt (blocks ! k) name)))
    \<and> (\<forall>name\<in>set cs. \<exists>agg. get f name (- 1) = Inr (Some agg)
          \<and> length agg = sum_list (map (\<lambda>b. length (block_rows rt b name)) blocks))"
proof -
  from construct_log[OF assms(1), of tf] obtain f :: "('v, 'n) File" where
    i: "init rt tf (render pre blocks open_end) = Inr f"
    and inv: "seg_inv rt blocks f" and n: "length (partial_logs f) = length blocks" by blast
  from assms(1) have ne: "blocks \<noteq> []" and bp: "\<forall>b\<in>set blocks. block_parses rt b"
    by (simp_all add: wf_log_def list_all_iff)
  have run: "get f name (int k) = Inr (Some (block_rows rt (blocks ! k) name))"
    if "name \<in> set cs" "k < length blocks" for name k
    using that assms(2) bp by (simp add: get_run[OF inv] block_column_rows)
  have agg: "get f name (- 1)
      = Inr (Some (concat (map (\<lambda>b. block_rows rt b name) blocks)))"
    if "name \<in> set cs" for name
    using that assms(2) ne
    by (simp add: get_aggregate[OF inv] aggregate_def final_epoch_all_same[OF assms(2) ne])
  have "length (concat (map (\<lambda>b. block_rows rt b name) blocks))
      = sum_list (map (\<lambda>b. length (block_rows rt b name)) blocks)" for name
    by (simp add: length_concat comp_def)
  with i n run agg show ?thesis
    by (intro exI[of _ f]) (simp add: get_num_partial_logs_def)
qed

lemma distinct_names_same_columns_example:
  "\<exists>f :: (string, rat) File.
     init sample_read_table sample_float (render [''units lj\<newline>''] open_ended_blocks True) = Inr f
     \<and> get_num_partial_logs f = 2
     \<and> get f ''Temp'' 0 = Inr (Some [''1.0'', ''1.1''])
     \<and> get f ''Temp'' 1 = Inr (Some [''1.2''])
     \<and> (\<exists>agg. get f ''Temp'' (- 1) = Inr (Some agg) \<and> length agg = 3)"
proof -
  have cs: "\<forall>b\<in>set open_ended_blocks. column_set b = [''Step'', ''Temp'']" by code_simp
  from distinct_names_same_columns [OF wf_open_ended cs, of sample_float]
  obtain f :: "(string, rat) File" where
    i: "init sample_read_table sample_float (render [''units lj\<newline>''] open_ended_blocks True)
          = Inr f"
    and n: "get_num_partial_logs f = length open_ended_blocks"
    and r: "\<forall>name\<in>set [''Step'', ''Temp'']. \<forall>k<length open_ended_blocks.
          get f name (int k)
            = Inr (Some (block_rows sample_read_table (open_ended_blocks ! k) name))"
    and a: "\<forall>name\<in>set [''Step'', ''Temp'']. \<exists>agg. get f name (- 1) = Inr (Some agg)
          \<and> length agg = sum_list (map (\<lambda>b. length (block_rows sample_read_table b name))
                 open_ended_blocks)"
    by blast
  have l: "length open_ended_blocks = 2" by (simp add: open_ended_blocks_def)
  have e0: "block_rows sample_read_table (open_ended_blocks ! 0) ''Temp'' = [''1.0'', ''1.1'']"
    by code_simp
  have e1: "block_rows sample_read_table (open_ended_blocks ! Suc 0) ''Temp'' = [''1.2'']"
    by code_simp
  have s: "sum_list (map (\<lambda>b. length (block_rows sample_read_table b ''Temp''))
                 open_ended_blocks) = 3" by code_simp
  from r [rule_format, of "''Temp''" 0] r [rule_format, of "''Temp''" 1] l
  have "get f ''Temp'' 0 = Inr (Some [''1.0'', ''1.1''])"
    "get f ''Temp'' 1 = Inr (Some [''1.2''])"
    by (simp_all add: e0 e1)
  moreover from a [rule_format, of "''Temp''"] s have "\<exists>agg. get f ''Temp'' (- 1) = Inr (Some agg) \<and> length agg = 3"
    by simp
  ultimately show ?thesis using i n l by (intro exI[of _ f]) simp
qed

text \<open>
  When every header names each column once: for a well-formed log of tabular blocks,
  whatever their ColumnSets, the aggregate returned by \<open>get(name, -1)\<close> is the rows of
  the final epoch (the last contiguous blocks whose column names equal, as lists, those
  of the last block; earlier blocks are discarded), and \<open>get(name, k)\<close> is the column
  of block \<open>k\<close> itself for every run \<open>k\<close>.
\<close>

lemma distinct_names_final_epoch:
  assumes "wf_log rt pre blocks open_end"
  shows "\<exists>f :: ('v, 'n) File. init rt tf (render pre blocks open_end) = Inr f
    \<and> get_num_partial_logs f = length blocks
    \<and> (\<forall>name. get f name (- 1) = Inr (aggregate rt blocks name))
    \<and> (\<forall>name k. k < length blocks \<longrightarrow>
          get f name (int k) = Inr (block_column rt (blocks ! k) name))"
proof -
  from construct_log[OF assms(1), of tf] obtain f :: "('v, 'n) File" where
    i: "init rt tf (render pre blocks open_end) = Inr f"
    and inv: "seg_inv rt blocks f" and n: "length (partial_logs f) = length blocks" by blast
  show ?thesis
    using i n by (intro exI[of _ f]) (simp add: get_num_partial_logs_def get_aggregate[OF inv] get_run[OF inv])
qed

lemma distinct_names_final_epoch_example:
  "column_set (example_blocks ! 0) \<noteq> column_set (example_blocks ! 1)
   \<and> get example_file ''Temp'' (- 1) = Inr (Some [''1.0''])
   \<and> get example_file ''Temp'' 0 = Inr (Some [''1.0'', ''1.1''])
   \<and> get example_file ''Temp'' 1 = Inr (Some [''1.0''])
   \<and> get example_file ''Press'' 0 = Inr None"
proof -
  from distinct_names_final_epoch [OF wf_example, of sample_float]
  obtain f :: "(string, rat) File" where
    i: "init sample_read_table sample_float (render example_pre example_blocks False) = Inr f"
    and a: "\<forall>name. get f name (- 1) = Inr (aggregate sample_read_table example_blocks name)"
    and r: "\<forall>name k. k < length example_blocks \<longrightarrow>
          get f name (int k) = Inr (block_column sample_read_table (example_blocks ! k) name)"
    by blast
  from i have f: "f = example_file" by (simp add: render_example init_example)
  have l: "length example_blocks = 2" by (simp add: example_blocks_def)
  have c: "column_set (example_blocks ! 0) \<noteq> column_set (example_blocks ! 1)" by code_simp
  have e1: "aggregate sample_read_table example_blocks ''Temp'' = Some [''1.0'']" by code_simp
  have e2: "block_column sample_read_table (example_blocks ! 0) ''Temp'' = Some [''1.0'', ''1.1'']"
    by code_simp
  have e3: "block_column sample_read_table (example_blocks ! Suc 0) ''Temp'' = Some [''1.0'']"
    by code_simp
  have e4: "block_column sample_read_table (example_blocks ! 0) ''Press'' = None" by code_simp
  from r [rule_format, of 0 "''Temp''"] r [rule_format, of 1 "''Temp''"]
    r [rule_format, of 0 "''Press''"] l
  have "get f ''Temp'' 0 = Inr (Some [''1.0'', ''1.1''])"
    "get f ''Temp'' 1 = Inr (Some [''1.0''])" "get f ''Press'' 0 = Inr None"
    by (simp_all add: e2 e3 e4)
  moreover from a have "get f ''Temp'' (- 1) = Inr (Some [''1.0''])" by (simp add: e1)
  ultimately show ?thesis using c by (simp add: f)
qed

section \<open>The aggregate under a header that repeats a column name\<close>

text \<open>
  The \<open>for name in keywords\<close> loop runs once for every word of the header line.  The
  per-run dictionary is assigned, so a repeated name leaves the run's column as it is;
  the aggregate is extended with \<open>np.append\<close>, so a name that the header holds twice
  receives the rows of the block twice.
\<close>

text \<open>
  C1.  In \<open>dup_log\<close> both tabular blocks have the header \<open>Step Temp Temp\<close> and one
  row each.  Construction succeeds with two runs, the runs hold one row of \<open>Temp\<close> each,
  and the aggregate of \<open>Temp\<close> has four entries, not the two rows the runs have
  together.
\<close>

theorem repeated_column_aggregate_length:
  "init sample_read_table sample_float dup_log = Inr dup_file
   \<and> get_num_partial_logs dup_file = 2
   \<and> get dup_file ''Temp'' 0 = Inr (Some [''1.0''])
   \<and> get dup_file ''Temp'' 1 = Inr (Some [''2.0''])
   \<and> get dup_file ''Temp'' (- 1) = Inr (Some [''1.0'', ''1.0'', ''2.0'', ''2.0''])"
  by code_simp

text \<open>
  C2.  In \<open>mixed_log\<close> the first block has the header \<open>Step Temp\<close> and the last one
  \<open>Step Temp Temp\<close>, so the final epoch is the last block alone, with one row.  Each
  run holds its own row of \<open>Temp\<close>, the first block's row is discarded from the
  aggregate, and the aggregate of \<open>Temp\<close> holds the last block's row twice.
\<close>

theorem repeated_column_final_epoch:
  "init sample_read_table sample_float mixed_log = Inr mixed_file
   \<and> get_num_partial_logs mixed_file = 2
   \<and> get_keywords mixed_file 0 = Inr (Some [''Step'', ''Temp''])
   \<and> get_keywords mixed_file 1 = Inr (Some [''Step'', ''Temp''])
   \<and> keywords mixed_file = [''Step'', ''Temp'', ''Temp'']
   \<and> get mixed_file ''Temp'' 0 = Inr (Some [''1.0''])
   \<and> get mixed_file ''Temp'' 1 = Inr (Some [''2.0''])
   \<and> get mixed_file ''Temp'' (- 1) = Inr (Some [''2.0'', ''2.0''])"
  by code_simp

end
